theory Spec2Isabelle
  imports Main
begin

section \<open>The world a unit filter is evaluated in\<close>

text \<open>
  The filter of \<^verbatim>\<open>unit_filter.cpp\<close> reads units, teams, the map, the stored
  variables and the scripting kernel through classes that are declared in other files.
  Each of them is a record of exactly the members the filter calls.
\<close>

record map_location =
  loc_x :: int
  loc_y :: int

text \<open>\<^verbatim>\<open>map_location::DIRECTION\<close>, the index into the array of six adjacent tiles.\<close>

datatype DIRECTION = NORTH | NORTH_EAST | SOUTH_EAST | SOUTH | SOUTH_WEST | NORTH_WEST

datatype GENDER = MALE | FEMALE

text \<open>
  A \<^verbatim>\<open>config::attribute_value\<close> is blank (the key is absent) or holds a value, kept
  here in its string form: \<^verbatim>\<open>blank()\<close> is \<open>None\<close>, \<^verbatim>\<open>empty()\<close> is blank or
  the empty string, \<^verbatim>\<open>str()\<close> is the string (empty when blank).
\<close>

type_synonym attribute_value = "string option"

definition blank :: "attribute_value \<Rightarrow> bool" where
  "blank a = (a = None)"

definition attr_empty :: "attribute_value \<Rightarrow> bool" where
  "attr_empty a = (case a of None \<Rightarrow> True | Some s \<Rightarrow> s = [])"

definition str :: "attribute_value \<Rightarrow> string" where
  "str a = (case a of None \<Rightarrow> [] | Some s \<Rightarrow> s)"

text \<open>A \<^verbatim>\<open>config\<close>: attributes and the ordered list of tagged children.\<close>

datatype config = Config (attributes: "(string \<times> string) list") (all_children: "(string \<times> config) list")

text \<open>
  A \<^verbatim>\<open>vconfig\<close>, the description a filter is built from: null, or attributes and the
  ordered list of tagged children (\<^verbatim>\<open>ordered_begin() .. ordered_end()\<close>).
\<close>

datatype vconfig = Null_vconfig | Vconfig "(string \<times> string) list" "(string \<times> vconfig) list"

fun vattr :: "vconfig \<Rightarrow> string \<Rightarrow> attribute_value" where
  "vattr Null_vconfig key = None"
| "vattr (Vconfig attrs cs) key = map_of attrs key"

fun get_children :: "vconfig \<Rightarrow> string \<Rightarrow> vconfig list" where
  "get_children Null_vconfig key = []"
| "get_children (Vconfig attrs cs) key = map snd (filter (\<lambda>kc. fst kc = key) cs)"

record unit_type =
  base_id :: string
  variations :: "string list"

definition has_variation :: "unit_type \<Rightarrow> string \<Rightarrow> bool" where
  "has_variation t v = (v \<in> set (variations t))"

type_synonym t_terrain = int

record game_unit =
  u_name :: string
  u_id :: string
  u_location :: map_location
  u_side :: int
  u_type_id :: string
  u_variation :: string
  u_type :: unit_type
  u_abilities :: "string list"
  u_race_id :: string
  u_gender :: GENDER
  u_attacks :: "string list"
  u_role :: string
  u_state_guardian :: bool
  u_can_recruit :: bool
  u_recall_cost :: int
  u_level :: int
  u_defense_modifier :: "t_terrain \<Rightarrow> int"
  u_movement_cost :: "t_terrain \<Rightarrow> int"
  u_variables :: config
  u_write :: config
  u_invisible :: "map_location \<Rightarrow> bool"

record team =
  fogged :: "map_location \<Rightarrow> bool"
  is_enemy :: "int \<Rightarrow> bool"

record gamemap =
  on_board :: "map_location \<Rightarrow> bool"
  get_terrain :: "map_location \<Rightarrow> t_terrain"

text \<open>
  \<^verbatim>\<open>game_data::get_variable_access_read(name)\<close> throws
  \<^verbatim>\<open>invalid_variablename_exception\<close> or gives an access whose \<^verbatim>\<open>as_array()\<close> is a
  range of configs.
\<close>

datatype variable_access = Invalid_variablename | As_array "config list"

record game_data =
  get_variable_access_read :: "string \<Rightarrow> variable_access"

type_synonym game_lua_kernel = "string \<Rightarrow> game_unit \<Rightarrow> bool"

text \<open>
  The \<^verbatim>\<open>filter_context\<close>, with the display context's units (in the unit map's
  iteration order), teams and map, and the two pointers that may be null.
\<close>

record filter_context =
  units :: "game_unit list"
  teams :: "team list"
  gmap :: gamemap
  get_game_data :: "game_data option"
  get_lua_kernel :: "game_lua_kernel option"

text \<open>\<^verbatim>\<open>units.find(loc)\<close>: the unit at a location, or \<^verbatim>\<open>units.end()\<close>.\<close>

definition units_find :: "game_unit list \<Rightarrow> map_location \<Rightarrow> game_unit option" where
  "units_find us loc = find (\<lambda>v. u_location v = loc) us"

text \<open>
  \<^verbatim>\<open>teams()[i]\<close> on the vector of teams: an index outside the vector has no defined
  result in the program, which the model reports as \<open>None\<close>.
\<close>

definition teams_at :: "team list \<Rightarrow> int \<Rightarrow> team option" where
  "teams_at ts i = (if 0 \<le> i \<and> i < int (length ts) then Some (ts ! nat i) else None)"

text \<open>
  The location and side filters are built by classes of other files; the model keeps the
  description each was built from and asks the environment for its answer.
\<close>

record terrain_filter =
  tf_cfg :: vconfig
  tf_flat_tod :: bool

record side_filter =
  sf_cfg :: vconfig

text \<open>
  Functions of other files that the filter calls. They are parameters of the model:
  every theorem below holds for each choice of them.
\<close>

record externals =
  split :: "string \<Rightarrow> string list"
  loc_valid :: "map_location \<Rightarrow> bool"
  matches_range :: "map_location \<Rightarrow> string \<Rightarrow> string \<Rightarrow> bool"
  get_adjacent_tiles :: "map_location \<Rightarrow> DIRECTION \<Rightarrow> map_location"
  parse_directions :: "string \<Rightarrow> DIRECTION list"
  parse_ranges :: "string \<Rightarrow> (int \<times> int) list"
  to_int :: "attribute_value \<Rightarrow> int \<Rightarrow> int"
  to_bool :: "attribute_value \<Rightarrow> bool \<Rightarrow> bool"
  string_gender :: "string \<Rightarrow> GENDER"
  str_cast :: "int \<Rightarrow> string"
  unit_types_find :: "string \<Rightarrow> unit_type option"
  config_matches :: "config \<Rightarrow> config \<Rightarrow> bool"
  get_parsed_config :: "filter_context \<Rightarrow> vconfig \<Rightarrow> config"
  formula_matches_filter :: "filter_context \<Rightarrow> string \<Rightarrow> map_location \<Rightarrow> game_unit \<Rightarrow> bool"
  terrain_filter_match :: "filter_context \<Rightarrow> terrain_filter \<Rightarrow> map_location \<Rightarrow> bool"
  side_filter_match :: "filter_context \<Rightarrow> side_filter \<Rightarrow> int \<Rightarrow> bool"
  side_filter_get_teams :: "filter_context \<Rightarrow> vconfig \<Rightarrow> int list"
  scoped_xy_unit :: "string \<Rightarrow> int \<Rightarrow> int \<Rightarrow> game_unit list \<Rightarrow> game_data \<Rightarrow> game_data"

section \<open>The lazily parsed string list\<close>

text \<open>
  \<^verbatim>\<open>class lazy_string_list\<close>: the string and the cache \<^verbatim>\<open>my_list_\<close>, which the
  \<^verbatim>\<open>const\<close> member \<^verbatim>\<open>get()\<close> fills on first use. Each member returns its answer,
  the wrapper as it leaves it, and the number of calls of \<^verbatim>\<open>utils::split\<close> it made.
\<close>

record lazy_string_list =
  my_str :: string
  my_list :: "string list option"

definition lazy_string_list_of :: "attribute_value \<Rightarrow> lazy_string_list" where
  "lazy_string_list_of attr =
     (if blank attr then \<lparr>my_str = [], my_list = Some []\<rparr>
      else \<lparr>my_str = str attr, my_list = None\<rparr>)"

definition lazy_get :: "(string \<Rightarrow> string list) \<Rightarrow> lazy_string_list \<Rightarrow> string list \<times> lazy_string_list \<times> nat" where
  "lazy_get sp l =
     (case my_list l of
        None \<Rightarrow> (let v = sp (my_str l) in (v, l\<lparr>my_list := Some v\<rparr>, 1))
      | Some v \<Rightarrow> (v, l, 0))"

definition lazy_empty :: "(string \<Rightarrow> string list) \<Rightarrow> lazy_string_list \<Rightarrow> bool \<times> lazy_string_list \<times> nat" where
  "lazy_empty sp l = (case lazy_get sp l of (vals, l', n) \<Rightarrow> (vals = [], l', n))"

definition lazy_find :: "(string \<Rightarrow> string list) \<Rightarrow> lazy_string_list \<Rightarrow> string \<Rightarrow> bool \<times> lazy_string_list \<times> nat" where
  "lazy_find sp l s = (case lazy_get sp l of (vals, l', n) \<Rightarrow> (s \<in> set vals, l', n))"

section \<open>The compiled filter\<close>

text \<open>\<^verbatim>\<open>conditional::TYPE\<close>, made by \<^verbatim>\<open>MAKE_ENUM\<close> with the strings of the three tags.\<close>

datatype cond_TYPE = AND | OR | NOT

text \<open>\<^verbatim>\<open>string_to_TYPE\<close>; \<open>None\<close> is the \<^verbatim>\<open>bad_enum_cast\<close> it throws.\<close>

definition string_to_TYPE :: "string \<Rightarrow> cond_TYPE option" where
  "string_to_TYPE s =
     (if s = ''and'' then Some AND
      else if s = ''or'' then Some OR
      else if s = ''not'' then Some NOT
      else None)"

text \<open>
  The members of \<^verbatim>\<open>basic_unit_filter_impl\<close> that hold no nested unit filter. The two
  vectors of the vision filters are pushed together and asserted to have one size, so
  they are one list of pairs (the viewers, a \<^verbatim>\<open>std::set<int>\<close>, as the ascending list
  of its elements).
\<close>

record basic_cfg =
  use_flat_tod :: bool
  cfg_name :: attribute_value
  cfg_id :: lazy_string_list
  cfg_speaker :: attribute_value
  cfg_filter_loc :: "terrain_filter option"
  cfg_filter_side :: "side_filter option"
  cfg_x :: attribute_value
  cfg_y :: attribute_value
  cfg_type :: lazy_string_list
  cfg_variation_type :: lazy_string_list
  cfg_has_variation_type :: lazy_string_list
  cfg_ability :: lazy_string_list
  cfg_race :: lazy_string_list
  cfg_gender :: attribute_value
  cfg_side :: lazy_string_list
  cfg_side_to_int :: int
  cfg_has_weapon :: attribute_value
  cfg_role :: attribute_value
  cfg_ai_special :: attribute_value
  cfg_canrecruit :: attribute_value
  cfg_recall_cost :: attribute_value
  cfg_level :: attribute_value
  cfg_defense :: attribute_value
  cfg_movement :: attribute_value
  wmlcfgs :: "vconfig list"
  vision_filters :: "(int list \<times> bool) list"
  cfg_find_in :: attribute_value
  cfg_formula :: attribute_value
  cfg_lua_function :: attribute_value

text \<open>
  What the vectors \<^verbatim>\<open>filter_adj_is_enemy_\<close>, \<^verbatim>\<open>filter_adj_dirs_\<close> and
  \<^verbatim>\<open>filter_adj_counts_\<close> hold at one index.
\<close>

record adj_cfg =
  adj_is_enemy :: "bool option"
  adj_dirs :: "DIRECTION list"
  adj_counts :: "(int \<times> int) list"

text \<open>
  A \<^verbatim>\<open>unit_filter\<close> owns one of the two implementations. The basic one holds its
  conditional children (\<^verbatim>\<open>cond_child_types_[i]\<close> with \<^verbatim>\<open>cond_children_[i]\<close>) and its
  adjacency filters (\<^verbatim>\<open>filter_adj_filters_[i]\<close> with the three vectors above), each in
  the order of the description.
\<close>

datatype unit_filter =
    Null_unit_filter_impl
  | Basic_unit_filter_impl basic_cfg "(cond_TYPE \<times> unit_filter) list" "(unit_filter \<times> adj_cfg) list"

section \<open>Construction\<close>

text \<open>The two \<^verbatim>\<open>FAIL\<close>s of the constructor.\<close>

datatype wml_error = Multiple_filter_location | Multiple_filter_side

text \<open>
  Modelled from the spec: \<^verbatim>\<open>map_location::default_dirs()\<close> and
  \<^verbatim>\<open>utils::parse_ranges("1-6")\<close> are not among the sources; the spec gives the
  defaults as all six directions and the count range from 1 to 6.
\<close>

definition default_dirs :: "DIRECTION list" where
  "default_dirs = [NORTH, NORTH_EAST, SOUTH_EAST, SOUTH, SOUTH_WEST, NORTH_WEST]"

definition default_counts :: "(int \<times> int) list" where
  "default_counts = [(1, 6)]"

text \<open>The member initialisers of the constructor, before its loop over the children.\<close>

definition init_cfg :: "externals \<Rightarrow> bool \<Rightarrow> vconfig \<Rightarrow> basic_cfg" where
  "init_cfg X flat_tod vcfg =
     \<lparr>use_flat_tod = flat_tod,
      cfg_name = vattr vcfg ''name'',
      cfg_id = lazy_string_list_of (vattr vcfg ''id''),
      cfg_speaker = vattr vcfg ''speaker'',
      cfg_filter_loc = None,
      cfg_filter_side = None,
      cfg_x = vattr vcfg ''x'',
      cfg_y = vattr vcfg ''y'',
      cfg_type = lazy_string_list_of (vattr vcfg ''type''),
      cfg_variation_type = lazy_string_list_of (vattr vcfg ''variation''),
      cfg_has_variation_type = lazy_string_list_of (vattr vcfg ''has_variation''),
      cfg_ability = lazy_string_list_of (vattr vcfg ''ability''),
      cfg_race = lazy_string_list_of (vattr vcfg ''race''),
      cfg_gender = vattr vcfg ''gender'',
      cfg_side = lazy_string_list_of (vattr vcfg ''side''),
      cfg_side_to_int = to_int X (vattr vcfg ''side'') (- 999),
      cfg_has_weapon = vattr vcfg ''has_weapon'',
      cfg_role = vattr vcfg ''role'',
      cfg_ai_special = vattr vcfg ''ai_special'',
      cfg_canrecruit = vattr vcfg ''canrecruit'',
      cfg_recall_cost = vattr vcfg ''recall_cost'',
      cfg_level = vattr vcfg ''level'',
      cfg_defense = vattr vcfg ''defense'',
      cfg_movement = vattr vcfg ''movement_cost'',
      wmlcfgs = get_children vcfg ''filter_wml'',
      vision_filters = [],
      cfg_find_in = vattr vcfg ''find_in'',
      cfg_formula = vattr vcfg ''formula'',
      cfg_lua_function = vattr vcfg ''lua_function''\<rparr>"

text \<open>What the \<^verbatim>\<open>filter_vision\<close> and \<^verbatim>\<open>filter_adjacent\<close> branches push.\<close>

definition vision_entry :: "externals \<Rightarrow> filter_context \<Rightarrow> vconfig \<Rightarrow> int list \<times> bool" where
  "vision_entry X fc f =
     (sort (remdups (side_filter_get_teams X fc f)), to_bool X (vattr f ''visible'') True)"

definition adjacent_entry :: "externals \<Rightarrow> vconfig \<Rightarrow> adj_cfg" where
  "adjacent_entry X f =
     (let i_adjacent = vattr f ''adjacent'';
          i_is_enemy = vattr f ''is_enemy'';
          i_count = vattr f ''count''
      in \<lparr>adj_is_enemy = (if blank i_is_enemy then None else Some (to_bool X i_is_enemy False)),
          adj_dirs = (if \<not> blank i_adjacent then parse_directions X (str i_adjacent) else default_dirs),
          adj_counts = (if \<not> blank i_count then parse_ranges X (str i_count) else default_counts)\<rparr>)"

text \<open>
  \<^verbatim>\<open>construct\<close> and the constructor of \<^verbatim>\<open>basic_unit_filter_impl\<close>, whose loop over
  the ordered children is \<open>ctor_loop\<close> on the members built so far. A \<^verbatim>\<open>FAIL\<close> of a
  nested constructor is not caught (the handler catches \<^verbatim>\<open>bad_enum_cast\<close> only) and
  ends the construction.
\<close>

fun construct :: "externals \<Rightarrow> filter_context \<Rightarrow> bool \<Rightarrow> vconfig \<Rightarrow> wml_error + unit_filter"
and ctor_loop :: "externals \<Rightarrow> filter_context \<Rightarrow> bool \<Rightarrow> (string \<times> vconfig) list \<Rightarrow>
    basic_cfg \<times> (cond_TYPE \<times> unit_filter) list \<times> (unit_filter \<times> adj_cfg) list \<Rightarrow>
    wml_error + (basic_cfg \<times> (cond_TYPE \<times> unit_filter) list \<times> (unit_filter \<times> adj_cfg) list)"
where
  "construct X fc flat_tod Null_vconfig = Inr Null_unit_filter_impl"
| "construct X fc flat_tod (Vconfig attrs cs) =
     (case ctor_loop X fc flat_tod cs (init_cfg X flat_tod (Vconfig attrs cs), [], []) of
        Inl e \<Rightarrow> Inl e
      | Inr (cfg, conds, adjs) \<Rightarrow> Inr (Basic_unit_filter_impl cfg conds adjs))"
| "ctor_loop X fc flat_tod [] st = Inr st"
| "ctor_loop X fc flat_tod ((cond_name, child) # rest) (cfg, conds, adjs) =
     (case string_to_TYPE cond_name of
        Some type \<Rightarrow>
          (case construct X fc flat_tod child of
             Inl e \<Rightarrow> Inl e
           | Inr f \<Rightarrow> ctor_loop X fc flat_tod rest (cfg, conds @ [(type, f)], adjs))
      | None \<Rightarrow>
          if cond_name = ''filter_vision'' then
            ctor_loop X fc flat_tod rest
              (cfg\<lparr>vision_filters := vision_filters cfg @ [vision_entry X fc child]\<rparr>, conds, adjs)
          else if cond_name = ''filter_adjacent'' then
            (case construct X fc flat_tod child of
               Inl e \<Rightarrow> Inl e
             | Inr f \<Rightarrow> ctor_loop X fc flat_tod rest (cfg, conds, adjs @ [(f, adjacent_entry X child)]))
          else if cond_name = ''filter_location'' then
            (case cfg_filter_loc cfg of
               None \<Rightarrow>
                 ctor_loop X fc flat_tod rest
                   (cfg\<lparr>cfg_filter_loc := Some \<lparr>tf_cfg = child, tf_flat_tod = use_flat_tod cfg\<rparr>\<rparr>, conds, adjs)
             | Some tf \<Rightarrow> Inl Multiple_filter_location)
          else if cond_name = ''filter_side'' then
            (case cfg_filter_side cfg of
               None \<Rightarrow>
                 ctor_loop X fc flat_tod rest (cfg\<lparr>cfg_filter_side := Some \<lparr>sf_cfg = child\<rparr>\<rparr>, conds, adjs)
             | Some sf \<Rightarrow> Inl Multiple_filter_side)
          else ctor_loop X fc flat_tod rest (cfg, conds, adjs))"

text \<open>
  The constructor of \<^verbatim>\<open>unit_filter\<close>: it asserts that the context pointer is not
  null, then takes the implementation \<^verbatim>\<open>construct\<close> selects.
\<close>

datatype ctor_failure = Assert_null_filter_context | Wml_error wml_error

definition unit_filter_of :: "externals \<Rightarrow> vconfig \<Rightarrow> filter_context option \<Rightarrow> bool \<Rightarrow> ctor_failure + unit_filter" where
  "unit_filter_of X vcfg fc flat_tod =
     (case fc of
        None \<Rightarrow> Inl Assert_null_filter_context
      | Some c \<Rightarrow> (case construct X c flat_tod vcfg of Inl e \<Rightarrow> Inl (Wml_error e) | Inr f \<Rightarrow> Inr f))"

section \<open>The local predicate\<close>

text \<open>
  What ends an evaluation without an answer: the \<^verbatim>\<open>assert(type)\<close> of the
  \<^verbatim>\<open>has_variation\<close> check, an index outside the vector of teams, and taking the unit
  of an iterator that is the end of the unit map.
\<close>

datatype failure = Assert_type_null | Teams_index_out_of_range | Invalid_iterator

text \<open>
  The checks of \<^verbatim>\<open>internal_matches_filter\<close>, one definition for each block of the
  function, in its order; a check is true when the block does not return false.
  A list attribute is asked \<^verbatim>\<open>empty()\<close> and then \<^verbatim>\<open>find\<close> or \<^verbatim>\<open>get()\<close> on the
  wrapper as \<^verbatim>\<open>empty()\<close> left it.
\<close>

definition check_name :: "basic_cfg \<Rightarrow> game_unit \<Rightarrow> bool" where
  "check_name cfg u = (\<not> (\<not> blank (cfg_name cfg) \<and> str (cfg_name cfg) \<noteq> u_name u))"

definition check_list :: "externals \<Rightarrow> lazy_string_list \<Rightarrow> string \<Rightarrow> bool" where
  "check_list X l s =
     (case lazy_empty (split X) l of
        (e, l', n) \<Rightarrow> if \<not> e then fst (lazy_find (split X) l' s) else True)"

definition check_id :: "externals \<Rightarrow> basic_cfg \<Rightarrow> game_unit \<Rightarrow> bool" where
  "check_id X cfg u = check_list X (cfg_id cfg) (u_id u)"

definition check_speaker :: "basic_cfg \<Rightarrow> game_unit \<Rightarrow> bool" where
  "check_speaker cfg u = (\<not> (\<not> blank (cfg_speaker cfg) \<and> str (cfg_speaker cfg) \<noteq> u_id u))"

definition check_filter_loc :: "externals \<Rightarrow> filter_context \<Rightarrow> basic_cfg \<Rightarrow> map_location \<Rightarrow> bool" where
  "check_filter_loc X fc cfg loc =
     (case cfg_filter_loc cfg of None \<Rightarrow> True | Some tf \<Rightarrow> terrain_filter_match X fc tf loc)"

definition check_filter_side :: "externals \<Rightarrow> filter_context \<Rightarrow> basic_cfg \<Rightarrow> game_unit \<Rightarrow> bool" where
  "check_filter_side X fc cfg u =
     (case cfg_filter_side cfg of None \<Rightarrow> True | Some sf \<Rightarrow> side_filter_match X fc sf (u_side u))"

definition check_xy :: "externals \<Rightarrow> filter_context \<Rightarrow> basic_cfg \<Rightarrow> map_location \<Rightarrow> bool" where
  "check_xy X fc cfg loc =
     (if \<not> blank (cfg_x cfg) \<or> \<not> blank (cfg_y cfg) then
        (if cfg_x cfg = Some ''recall'' \<and> cfg_y cfg = Some ''recall'' then
           (if on_board (gmap fc) loc then False else True)
         else if attr_empty (cfg_x cfg) \<and> attr_empty (cfg_y cfg) then False
         else if \<not> matches_range X loc (str (cfg_x cfg)) (str (cfg_y cfg)) then False
         else True)
      else True)"

definition check_type :: "externals \<Rightarrow> basic_cfg \<Rightarrow> game_unit \<Rightarrow> bool" where
  "check_type X cfg u = check_list X (cfg_type cfg) (u_type_id u)"

definition check_variation :: "externals \<Rightarrow> basic_cfg \<Rightarrow> game_unit \<Rightarrow> bool" where
  "check_variation X cfg u = check_list X (cfg_variation_type cfg) (u_variation u)"

definition check_has_variation :: "externals \<Rightarrow> basic_cfg \<Rightarrow> game_unit \<Rightarrow> failure + bool" where
  "check_has_variation X cfg u =
     (case lazy_empty (split X) (cfg_has_variation_type cfg) of
        (e, l', n) \<Rightarrow>
          if \<not> e then
            (case (if u_variation u = [] then Some (u_type u)
                   else unit_types_find X (base_id (u_type u))) of
               None \<Rightarrow> Inl Assert_type_null
             | Some type \<Rightarrow> Inr (list_ex (has_variation type) (fst (lazy_get (split X) l'))))
          else Inr True)"

definition check_ability :: "externals \<Rightarrow> basic_cfg \<Rightarrow> game_unit \<Rightarrow> bool" where
  "check_ability X cfg u =
     (case lazy_empty (split X) (cfg_ability cfg) of
        (e, l', n) \<Rightarrow>
          if \<not> e then list_ex (\<lambda>ability_id. ability_id \<in> set (u_abilities u)) (fst (lazy_get (split X) l'))
          else True)"

definition check_race :: "externals \<Rightarrow> basic_cfg \<Rightarrow> game_unit \<Rightarrow> bool" where
  "check_race X cfg u = check_list X (cfg_race cfg) (u_race_id u)"

definition check_gender :: "externals \<Rightarrow> basic_cfg \<Rightarrow> game_unit \<Rightarrow> bool" where
  "check_gender X cfg u =
     (\<not> (\<not> blank (cfg_gender cfg) \<and> string_gender X (str (cfg_gender cfg)) \<noteq> u_gender u))"

definition check_side :: "externals \<Rightarrow> basic_cfg \<Rightarrow> game_unit \<Rightarrow> bool" where
  "check_side X cfg u =
     (case lazy_empty (split X) (cfg_side cfg) of
        (e, l', n) \<Rightarrow>
          if \<not> e \<and> cfg_side_to_int cfg \<noteq> u_side u
          then fst (lazy_find (split X) l' (str_cast X (u_side u)))
          else True)"

definition check_has_weapon :: "basic_cfg \<Rightarrow> game_unit \<Rightarrow> bool" where
  "check_has_weapon cfg u =
     (if \<not> blank (cfg_has_weapon cfg)
      then list_ex (\<lambda>i. i = str (cfg_has_weapon cfg)) (u_attacks u)
      else True)"

definition check_role :: "basic_cfg \<Rightarrow> game_unit \<Rightarrow> bool" where
  "check_role cfg u = (\<not> (\<not> blank (cfg_role cfg) \<and> str (cfg_role cfg) \<noteq> u_role u))"

definition check_ai_special :: "basic_cfg \<Rightarrow> game_unit \<Rightarrow> bool" where
  "check_ai_special cfg u =
     (\<not> (\<not> blank (cfg_ai_special cfg) \<and>
         ((str (cfg_ai_special cfg) = ''guardian'') \<noteq> u_state_guardian u)))"

definition check_canrecruit :: "externals \<Rightarrow> basic_cfg \<Rightarrow> game_unit \<Rightarrow> bool" where
  "check_canrecruit X cfg u =
     (\<not> (\<not> blank (cfg_canrecruit cfg) \<and> to_bool X (cfg_canrecruit cfg) False \<noteq> u_can_recruit u))"

definition check_recall_cost :: "externals \<Rightarrow> basic_cfg \<Rightarrow> game_unit \<Rightarrow> bool" where
  "check_recall_cost X cfg u =
     (\<not> (\<not> blank (cfg_recall_cost cfg) \<and> to_int X (cfg_recall_cost cfg) (- 1) \<noteq> u_recall_cost u))"

definition check_level :: "externals \<Rightarrow> basic_cfg \<Rightarrow> game_unit \<Rightarrow> bool" where
  "check_level X cfg u =
     (\<not> (\<not> blank (cfg_level cfg) \<and> to_int X (cfg_level cfg) (- 1) \<noteq> u_level u))"

definition check_defense :: "externals \<Rightarrow> filter_context \<Rightarrow> basic_cfg \<Rightarrow> game_unit \<Rightarrow> map_location \<Rightarrow> bool" where
  "check_defense X fc cfg u loc =
     (\<not> (\<not> blank (cfg_defense cfg) \<and>
         to_int X (cfg_defense cfg) (- 1) \<noteq> u_defense_modifier u (get_terrain (gmap fc) loc)))"

definition check_movement :: "externals \<Rightarrow> filter_context \<Rightarrow> basic_cfg \<Rightarrow> game_unit \<Rightarrow> map_location \<Rightarrow> bool" where
  "check_movement X fc cfg u loc =
     (\<not> (\<not> blank (cfg_movement cfg) \<and>
         to_int X (cfg_movement cfg) (- 1) \<noteq> u_movement_cost u (get_terrain (gmap fc) loc)))"

text \<open>
  One \<^verbatim>\<open>[filter_wml]\<close>: the variables alone when the parsed filter has no attribute
  and \<^verbatim>\<open>variables\<close> as its only child, the written unit otherwise (\<^verbatim>\<open>u.write\<close> fills
  \<^verbatim>\<open>unit_cfg\<close> when it is still empty, so it holds the written unit at each use).
\<close>

definition check_wml_one :: "externals \<Rightarrow> filter_context \<Rightarrow> game_unit \<Rightarrow> vconfig \<Rightarrow> bool" where
  "check_wml_one X fc u w =
     (let fwml = get_parsed_config X fc w in
      if length (attributes fwml) = 0 \<and> length (all_children fwml) = 1 \<and>
         fst (hd (all_children fwml)) = ''variables''
      then config_matches X (u_variables u) (snd (hd (all_children fwml)))
      else config_matches X (u_write u) fwml)"

definition check_wml :: "externals \<Rightarrow> filter_context \<Rightarrow> basic_cfg \<Rightarrow> game_unit \<Rightarrow> bool" where
  "check_wml X fc cfg u = list_all (check_wml_one X fc u) (wmlcfgs cfg)"

text \<open>
  The inner loop of the vision check over the viewers of one \<^verbatim>\<open>[filter_vision]\<close>
  (the value of \<^verbatim>\<open>found\<close> when it ends), and the outer loop over the vision filters.
\<close>

fun vision_found :: "filter_context \<Rightarrow> game_unit \<Rightarrow> map_location \<Rightarrow> bool \<Rightarrow> int list \<Rightarrow> failure + bool" where
  "vision_found fc u loc visible_attr [] = Inr False"
| "vision_found fc u loc visible_attr (viewer # viewers) =
     (case teams_at (teams fc) (viewer - 1) of
        None \<Rightarrow> Inl Teams_index_out_of_range
      | Some t \<Rightarrow>
          (let is_fogged = fogged t loc;
               hiding = u_invisible u loc;
               unit_hidden = (is_fogged \<or> hiding)
           in if visible_attr \<noteq> unit_hidden then Inr True
              else vision_found fc u loc visible_attr viewers))"

fun check_vision :: "filter_context \<Rightarrow> (int list \<times> bool) list \<Rightarrow> game_unit \<Rightarrow> map_location \<Rightarrow> failure + bool" where
  "check_vision fc [] u loc = Inr True"
| "check_vision fc ((viewers, visible_attr) # rest) u loc =
     (case vision_found fc u loc visible_attr viewers of
        Inl e \<Rightarrow> Inl e
      | Inr found \<Rightarrow> if \<not> found then Inr False else check_vision fc rest u loc)"

text \<open>
  Modelled from the spec: \<^verbatim>\<open>in_ranges\<close> is not among the sources; the spec has the
  count pass when it falls inside one of the accepted ranges.
\<close>

fun in_ranges :: "int \<Rightarrow> (int \<times> int) list \<Rightarrow> bool" where
  "in_ranges c [] = False"
| "in_ranges c ((lo, hi) # ranges) = (if lo \<le> c \<and> c \<le> hi then True else in_ranges c ranges)"

definition check_find_in :: "filter_context \<Rightarrow> basic_cfg \<Rightarrow> game_unit \<Rightarrow> bool" where
  "check_find_in fc cfg u =
     (if \<not> blank (cfg_find_in cfg) then
        (case get_game_data fc of
           None \<Rightarrow> True
         | Some gd \<Rightarrow>
             (case get_variable_access_read gd (str (cfg_find_in cfg)) of
                Invalid_variablename \<Rightarrow> False
              | As_array cs \<Rightarrow> list_ex (\<lambda>c. map_of (attributes c) ''id'' = Some (u_id u)) cs))
      else True)"

definition check_formula :: "externals \<Rightarrow> filter_context \<Rightarrow> basic_cfg \<Rightarrow> game_unit \<Rightarrow> map_location \<Rightarrow> bool" where
  "check_formula X fc cfg u loc =
     (if \<not> blank (cfg_formula cfg)
      then formula_matches_filter X fc (str (cfg_formula cfg)) loc u
      else True)"

definition check_lua_function :: "filter_context \<Rightarrow> basic_cfg \<Rightarrow> game_unit \<Rightarrow> bool" where
  "check_lua_function fc cfg u =
     (if \<not> blank (cfg_lua_function cfg) then
        (case get_lua_kernel fc of
           None \<Rightarrow> True
         | Some lk \<Rightarrow> lk (str (cfg_lua_function cfg)) u)
      else True)"

text \<open>The checks that cannot fail, in three runs between the ones that can.\<close>

definition checks_name_to_variation :: "externals \<Rightarrow> filter_context \<Rightarrow> basic_cfg \<Rightarrow> game_unit \<Rightarrow> map_location \<Rightarrow> bool" where
  "checks_name_to_variation X fc cfg u loc =
     (check_name cfg u \<and> check_id X cfg u \<and> check_speaker cfg u \<and>
      check_filter_loc X fc cfg loc \<and> check_filter_side X fc cfg u \<and>
      check_xy X fc cfg loc \<and> check_type X cfg u \<and> check_variation X cfg u)"

definition checks_ability_to_wml :: "externals \<Rightarrow> filter_context \<Rightarrow> basic_cfg \<Rightarrow> game_unit \<Rightarrow> map_location \<Rightarrow> bool" where
  "checks_ability_to_wml X fc cfg u loc =
     (check_ability X cfg u \<and> check_race X cfg u \<and> check_gender X cfg u \<and>
      check_side X cfg u \<and> check_has_weapon cfg u \<and> check_role cfg u \<and>
      check_ai_special cfg u \<and> check_canrecruit X cfg u \<and> check_recall_cost X cfg u \<and>
      check_level X cfg u \<and> check_defense X fc cfg u loc \<and> check_movement X fc cfg u loc \<and>
      check_wml X fc cfg u)"

definition checks_find_in_to_lua :: "externals \<Rightarrow> filter_context \<Rightarrow> basic_cfg \<Rightarrow> game_unit \<Rightarrow> map_location \<Rightarrow> bool" where
  "checks_find_in_to_lua X fc cfg u loc =
     (check_find_in fc cfg u \<and> check_formula X fc cfg u loc \<and> check_lua_function fc cfg u)"

text \<open>
  A check followed by the rest of the function: a failure ends the evaluation, a false
  check returns false, a true one goes on.
\<close>

definition and_then :: "failure + bool \<Rightarrow> failure + bool \<Rightarrow> failure + bool" where
  "and_then a b = (case a of Inl e \<Rightarrow> Inl e | Inr ok \<Rightarrow> if ok then b else Inr False)"

text \<open>
  \<^verbatim>\<open>scoped_xy_unit auto_store("this_unit", loc.x, loc.y, units)\<close>: the stored variables
  as they are while the object lives.
\<close>

definition auto_store :: "externals \<Rightarrow> filter_context \<Rightarrow> map_location \<Rightarrow> filter_context" where
  "auto_store X fc loc =
     fc\<lparr>get_game_data :=
          map_option (scoped_xy_unit X ''this_unit'' (loc_x loc) (loc_y loc) (units fc))
            (get_game_data fc)\<rparr>"

section \<open>The match evaluator\<close>

text \<open>
  \<^verbatim>\<open>basic_unit_filter_impl::matches\<close>, \<^verbatim>\<open>internal_matches_filter\<close> and the loops they
  run, which call back into \<^verbatim>\<open>matches\<close> of the nested filters.

  \<open>matches_run\<close> is one call of \<^verbatim>\<open>matches\<close>: its result, and the indices \<open>i\<close> for which
  the loop called \<^verbatim>\<open>cond_children_[i].matches(u,loc)\<close>, in the order of the calls. The
  operators \<^verbatim>\<open>&&\<close> and \<^verbatim>\<open>||\<close> of the loop evaluate their right operand only when the
  left one does not decide the result; \<open>cond_loop\<close> is the loop from index \<open>i\<close> on, on
  the value of \<^verbatim>\<open>matches\<close> and the calls made so far.

  \<open>adj_count\<close> is the loop over the directions of one \<^verbatim>\<open>[filter_adjacent]\<close> on
  \<^verbatim>\<open>match_count\<close>, \<open>adj_loop\<close> the loop over the adjacency filters. The adjacency
  filter is applied to the unit found, which is \<^verbatim>\<open>matches(u, u.get_location())\<close>.
\<close>

function (sequential) matches_run :: "externals \<Rightarrow> filter_context \<Rightarrow> unit_filter \<Rightarrow> game_unit \<Rightarrow> map_location \<Rightarrow>
    failure + (bool \<times> nat list)"
and cond_loop :: "externals \<Rightarrow> filter_context \<Rightarrow> (cond_TYPE \<times> unit_filter) list \<Rightarrow> game_unit \<Rightarrow>
    map_location \<Rightarrow> nat \<Rightarrow> bool \<times> nat list \<Rightarrow> failure + (bool \<times> nat list)"
and internal_matches_filter :: "externals \<Rightarrow> filter_context \<Rightarrow> basic_cfg \<Rightarrow>
    (unit_filter \<times> adj_cfg) list \<Rightarrow> game_unit \<Rightarrow> map_location \<Rightarrow> failure + bool"
and adj_loop :: "externals \<Rightarrow> filter_context \<Rightarrow> (unit_filter \<times> adj_cfg) list \<Rightarrow> game_unit \<Rightarrow>
    map_location \<Rightarrow> failure + bool"
and adj_count :: "externals \<Rightarrow> filter_context \<Rightarrow> unit_filter \<Rightarrow> bool option \<Rightarrow> game_unit \<Rightarrow>
    map_location \<Rightarrow> DIRECTION list \<Rightarrow> int \<Rightarrow> failure + int"
where
  "matches_run X fc Null_unit_filter_impl u loc = Inr (True, [])"
| "matches_run X fc (Basic_unit_filter_impl cfg conds adjs) u loc =
     (case (if loc_valid X loc
            then internal_matches_filter X (auto_store X fc loc) cfg adjs u loc
            else internal_matches_filter X fc cfg adjs u loc) of
        Inl e \<Rightarrow> Inl e
      | Inr m \<Rightarrow> cond_loop X fc conds u loc 0 (m, []))"
| "cond_loop X fc [] u loc i st = Inr st"
| "cond_loop X fc ((type, child) # rest) u loc i (m, called) =
     (case type of
        AND \<Rightarrow>
          (if m then
             (case matches_run X fc child u loc of
                Inl e \<Rightarrow> Inl e
              | Inr (r, cs) \<Rightarrow> cond_loop X fc rest u loc (Suc i) (r, called @ [i]))
           else cond_loop X fc rest u loc (Suc i) (False, called))
      | OR \<Rightarrow>
          (if m then cond_loop X fc rest u loc (Suc i) (True, called)
           else
             (case matches_run X fc child u loc of
                Inl e \<Rightarrow> Inl e
              | Inr (r, cs) \<Rightarrow> cond_loop X fc rest u loc (Suc i) (r, called @ [i])))
      | NOT \<Rightarrow>
          (if m then
             (case matches_run X fc child u loc of
                Inl e \<Rightarrow> Inl e
              | Inr (r, cs) \<Rightarrow> cond_loop X fc rest u loc (Suc i) (\<not> r, called @ [i]))
           else cond_loop X fc rest u loc (Suc i) (False, called)))"
| "internal_matches_filter X fc cfg adjs u loc =
     and_then (Inr (checks_name_to_variation X fc cfg u loc))
       (and_then (check_has_variation X cfg u)
          (and_then (Inr (checks_ability_to_wml X fc cfg u loc))
             (and_then (check_vision fc (vision_filters cfg) u loc)
                (and_then (adj_loop X fc adjs u loc)
                   (Inr (checks_find_in_to_lua X fc cfg u loc))))))"
| "adj_loop X fc [] u loc = Inr True"
| "adj_loop X fc ((f, a) # rest) u loc =
     (case adj_count X fc f (adj_is_enemy a) u loc (adj_dirs a) 0 of
        Inl e \<Rightarrow> Inl e
      | Inr match_count \<Rightarrow>
          if \<not> in_ranges match_count (adj_counts a) then Inr False
          else adj_loop X fc rest u loc)"
| "adj_count X fc f is_en u loc [] match_count = Inr match_count"
| "adj_count X fc f is_en u loc (j # js) match_count =
     (case units_find (units fc) (get_adjacent_tiles X loc j) of
        None \<Rightarrow> adj_count X fc f is_en u loc js match_count
      | Some v \<Rightarrow>
          (case matches_run X fc f v (u_location v) of
             Inl e \<Rightarrow> Inl e
           | Inr (r, cs) \<Rightarrow>
               if \<not> r then adj_count X fc f is_en u loc js match_count
               else
                 (case is_en of
                    None \<Rightarrow> adj_count X fc f is_en u loc js (match_count + 1)
                  | Some e \<Rightarrow>
                      (case teams_at (teams fc) (u_side u - 1) of
                         None \<Rightarrow> Inl Teams_index_out_of_range
                       | Some t \<Rightarrow>
                           if e = is_enemy t (u_side v)
                           then adj_count X fc f is_en u loc js (match_count + 1)
                           else adj_count X fc f is_en u loc js match_count))))"

  by pat_completeness auto

termination
  apply (relation "inv_image (less_than <*lex*> less_than)
     (\<lambda>x. case x of
        Inl (Inl (X, fc, f, u, loc)) \<Rightarrow> (size f, 0)
      | Inl (Inr (X, fc, cs, u, loc, i, st)) \<Rightarrow> (size_list (size_prod (\<lambda>t. 0) size) cs, 0)
      | Inr (Inl (X, fc, cfg, adjs, u, loc)) \<Rightarrow> (size_list (size_prod size (\<lambda>a. 0)) adjs, 1)
      | Inr (Inr (Inl (X, fc, adjs, u, loc))) \<Rightarrow> (size_list (size_prod size (\<lambda>a. 0)) adjs, 0)
      | Inr (Inr (Inr (X, fc, f, e, u, loc, js, n))) \<Rightarrow> (size f, Suc (length js)))")
  apply (rule wf_inv_image, rule wf_lex_prod, rule wf_less_than, rule wf_less_than)
  apply simp_all
  done

text \<open>\<^verbatim>\<open>matches(u, loc)\<close>, and the calls of the children's \<^verbatim>\<open>matches\<close> it made.\<close>

definition matches :: "externals \<Rightarrow> filter_context \<Rightarrow> unit_filter \<Rightarrow> game_unit \<Rightarrow> map_location \<Rightarrow> failure + bool" where
  "matches X fc f u loc = map_sum id fst (matches_run X fc f u loc)"

definition cond_calls :: "externals \<Rightarrow> filter_context \<Rightarrow> unit_filter \<Rightarrow> game_unit \<Rightarrow> map_location \<Rightarrow> failure + nat list" where
  "cond_calls X fc f u loc = map_sum id snd (matches_run X fc f u loc)"

text \<open>
  The local predicate of a filter: \<^verbatim>\<open>internal_matches_filter\<close> as \<^verbatim>\<open>matches\<close> calls it,
  inside the scope of \<^verbatim>\<open>auto_store\<close> when the location is valid.
\<close>

definition local_predicate :: "externals \<Rightarrow> filter_context \<Rightarrow> basic_cfg \<Rightarrow> (unit_filter \<times> adj_cfg) list \<Rightarrow>
    game_unit \<Rightarrow> map_location \<Rightarrow> failure + bool" where
  "local_predicate X fc cfg adjs u loc =
     (if loc_valid X loc
      then internal_matches_filter X (auto_store X fc loc) cfg adjs u loc
      else internal_matches_filter X fc cfg adjs u loc)"

section \<open>The queries over the map\<close>

fun all_matches_loop :: "externals \<Rightarrow> filter_context \<Rightarrow> unit_filter \<Rightarrow> game_unit list \<Rightarrow>
    game_unit list \<Rightarrow> failure + game_unit list" where
  "all_matches_loop X fc f [] ret = Inr ret"
| "all_matches_loop X fc f (u # us) ret =
     (case matches X fc f u (u_location u) of
        Inl e \<Rightarrow> Inl e
      | Inr m \<Rightarrow> all_matches_loop X fc f us (if m then ret @ [u] else ret))"

fun first_match_loop :: "externals \<Rightarrow> filter_context \<Rightarrow> unit_filter \<Rightarrow> game_unit list \<Rightarrow>
    failure + game_unit option" where
  "first_match_loop X fc f [] = Inr None"
| "first_match_loop X fc f (u # us) =
     (case matches X fc f u (u_location u) of
        Inl e \<Rightarrow> Inl e
      | Inr m \<Rightarrow> if m then Inr (Some u) else first_match_loop X fc f us)"

text \<open>
  \<^verbatim>\<open>all_matches_on_map\<close> and \<^verbatim>\<open>first_match_on_map\<close> of the two implementations. The
  null implementation returns \<^verbatim>\<open>units().begin().get_shared_ptr()\<close>: on an empty unit map
  \<^verbatim>\<open>begin()\<close> is \<^verbatim>\<open>end()\<close>, an iterator that holds no unit.
\<close>

fun all_matches_on_map :: "externals \<Rightarrow> filter_context \<Rightarrow> unit_filter \<Rightarrow> failure + game_unit list" where
  "all_matches_on_map X fc Null_unit_filter_impl = Inr (units fc)"
| "all_matches_on_map X fc (Basic_unit_filter_impl cfg conds adjs) =
     all_matches_loop X fc (Basic_unit_filter_impl cfg conds adjs) (units fc) []"

fun first_match_on_map :: "externals \<Rightarrow> filter_context \<Rightarrow> unit_filter \<Rightarrow> failure + game_unit option" where
  "first_match_on_map X fc Null_unit_filter_impl =
     (case units fc of [] \<Rightarrow> Inl Invalid_iterator | u # us \<Rightarrow> Inr (Some u))"
| "first_match_on_map X fc (Basic_unit_filter_impl cfg conds adjs) =
     first_match_loop X fc (Basic_unit_filter_impl cfg conds adjs) (units fc)"

section \<open>Notions the properties are stated in\<close>

text \<open>
  The fold of the specification: the accumulator after one combinator entry, whether a
  result is the answer true, and the left fold of a local result through the entries in
  their order.
\<close>

definition cond_apply :: "cond_TYPE \<Rightarrow> bool \<Rightarrow> bool \<Rightarrow> bool" where
  "cond_apply t acc child =
     (case t of AND \<Rightarrow> acc \<and> child | OR \<Rightarrow> acc \<or> child | NOT \<Rightarrow> acc \<and> \<not> child)"

definition holds :: "failure + bool \<Rightarrow> bool" where
  "holds r = (r = Inr True)"

definition left_fold :: "externals \<Rightarrow> filter_context \<Rightarrow> (cond_TYPE \<times> unit_filter) list \<Rightarrow>
    game_unit \<Rightarrow> map_location \<Rightarrow> bool \<Rightarrow> bool" where
  "left_fold X fc conds u loc local_result =
     foldl (\<lambda>acc tc. cond_apply (fst tc) acc (holds (matches X fc (snd tc) u loc))) local_result conds"

text \<open>
  The accumulator values on which the loop calls the child of an entry: true for
  \<^verbatim>\<open>AND\<close> and \<^verbatim>\<open>NOT\<close>, false for \<^verbatim>\<open>OR\<close>.
\<close>

definition calls_child :: "cond_TYPE \<Rightarrow> bool \<Rightarrow> bool" where
  "calls_child t acc = (case t of AND \<Rightarrow> acc | OR \<Rightarrow> \<not> acc | NOT \<Rightarrow> acc)"

text \<open>
  The filter nodes of a description: the description itself and, recursively, the
  children that the constructor compiles as unit filters (the ones tagged \<^verbatim>\<open>and\<close>,
  \<^verbatim>\<open>or\<close>, \<^verbatim>\<open>not\<close> or \<^verbatim>\<open>filter_adjacent\<close>). A node repeats a single block when it
  has two or more \<^verbatim>\<open>filter_location\<close> children or two or more \<^verbatim>\<open>filter_side\<close>
  children.
\<close>

fun filter_nodes :: "vconfig \<Rightarrow> vconfig list"
and child_filter_nodes :: "(string \<times> vconfig) list \<Rightarrow> vconfig list"
where
  "filter_nodes Null_vconfig = [Null_vconfig]"
| "filter_nodes (Vconfig attrs cs) = Vconfig attrs cs # child_filter_nodes cs"
| "child_filter_nodes [] = []"
| "child_filter_nodes ((k, c) # rest) =
     (if string_to_TYPE k \<noteq> None \<or> k = ''filter_adjacent'' then filter_nodes c else [])
     @ child_filter_nodes rest"

definition repeats_single_block :: "vconfig \<Rightarrow> bool" where
  "repeats_single_block v =
     (2 \<le> length (get_children v ''filter_location'') \<or>
      2 \<le> length (get_children v ''filter_side''))"

text \<open>
  A viewer side from which a unit at a location is hidden: the side's fog covers the
  location or the unit is concealed there.
\<close>

definition hidden_from :: "filter_context \<Rightarrow> game_unit \<Rightarrow> map_location \<Rightarrow> int \<Rightarrow> bool" where
  "hidden_from fc u loc viewer =
     (fogged (teams fc ! nat (viewer - 1)) loc \<or> u_invisible u loc)"

text \<open>
  A direction whose neighbour qualifies for an adjacency filter: the tile holds a unit,
  the nested filter matches that unit and, when the enemy flag is given, the flag equals
  the enemy relation of the tested unit's team to the neighbour's side.
\<close>

definition adj_qualifies :: "externals \<Rightarrow> filter_context \<Rightarrow> unit_filter \<Rightarrow> bool option \<Rightarrow>
    game_unit \<Rightarrow> map_location \<Rightarrow> DIRECTION \<Rightarrow> bool" where
  "adj_qualifies X fc f is_en u loc d =
     (case units_find (units fc) (get_adjacent_tiles X loc d) of
        None \<Rightarrow> False
      | Some v \<Rightarrow>
          holds (matches X fc f v (u_location v)) \<and>
          (case is_en of
             None \<Rightarrow> True
           | Some e \<Rightarrow> e = is_enemy (teams fc ! nat (u_side u - 1)) (u_side v)))"

text \<open>
  The list a wrapper stands for, as a function of the raw attribute value; a sequence of
  queries on one wrapper, each on the wrapper as the one before left it, with the answers
  and the total number of calls of the splitter; and the answer to a query on a list.
\<close>

definition parsed :: "(string \<Rightarrow> string list) \<Rightarrow> attribute_value \<Rightarrow> string list" where
  "parsed sp attr = (if blank attr then [] else sp (str attr))"

datatype lazy_query = Ask_empty | Ask_find string | Ask_get

datatype lazy_answer = Answer_bool bool | Answer_list "string list"

fun lazy_ask :: "(string \<Rightarrow> string list) \<Rightarrow> lazy_string_list \<Rightarrow> lazy_query \<Rightarrow>
    lazy_answer \<times> lazy_string_list \<times> nat" where
  "lazy_ask sp l Ask_empty = (case lazy_empty sp l of (b, l', n) \<Rightarrow> (Answer_bool b, l', n))"
| "lazy_ask sp l (Ask_find s) = (case lazy_find sp l s of (b, l', n) \<Rightarrow> (Answer_bool b, l', n))"
| "lazy_ask sp l Ask_get = (case lazy_get sp l of (v, l', n) \<Rightarrow> (Answer_list v, l', n))"

fun lazy_asks :: "(string \<Rightarrow> string list) \<Rightarrow> lazy_string_list \<Rightarrow> lazy_query list \<Rightarrow>
    lazy_answer list \<times> lazy_string_list \<times> nat" where
  "lazy_asks sp l [] = ([], l, 0)"
| "lazy_asks sp l (q # qs) =
     (case lazy_ask sp l q of
        (a, l', n) \<Rightarrow> (case lazy_asks sp l' qs of (as, l'', m) \<Rightarrow> (a # as, l'', n + m)))"

fun answer_on :: "string list \<Rightarrow> lazy_query \<Rightarrow> lazy_answer" where
  "answer_on vals Ask_empty = Answer_bool (vals = [])"
| "answer_on vals (Ask_find s) = Answer_bool (s \<in> set vals)"
| "answer_on vals Ask_get = Answer_list vals"

section \<open>An example world\<close>

text \<open>
  A small world on which the definitions are evaluated: a splitter of comma separated
  lists that strips blanks and drops empty pieces, a range test that knows one column
  and one row, two units on neighbouring tiles, two teams that are enemies.
\<close>

fun pieces :: "string \<Rightarrow> string list" where
  "pieces [] = [[]]"
| "pieces (c # cs) =
     (if c = CHR '','' then [] # pieces cs
      else (case pieces cs of [] \<Rightarrow> [[c]] | p # ps \<Rightarrow> (c # p) # ps))"

definition strip :: "string \<Rightarrow> string" where
  "strip s = rev (dropWhile (\<lambda>c. c = CHR '' '') (rev (dropWhile (\<lambda>c. c = CHR '' '') s)))"

definition comma_split :: "string \<Rightarrow> string list" where
  "comma_split s = filter (\<lambda>p. p \<noteq> []) (map strip (pieces s))"

definition example_adjacent :: "map_location \<Rightarrow> DIRECTION \<Rightarrow> map_location" where
  "example_adjacent l d =
     (case d of
        NORTH \<Rightarrow> \<lparr>loc_x = loc_x l, loc_y = loc_y l - 1\<rparr>
      | NORTH_EAST \<Rightarrow> \<lparr>loc_x = loc_x l + 1, loc_y = loc_y l - 1\<rparr>
      | SOUTH_EAST \<Rightarrow> \<lparr>loc_x = loc_x l + 1, loc_y = loc_y l\<rparr>
      | SOUTH \<Rightarrow> \<lparr>loc_x = loc_x l, loc_y = loc_y l + 1\<rparr>
      | SOUTH_WEST \<Rightarrow> \<lparr>loc_x = loc_x l - 1, loc_y = loc_y l\<rparr>
      | NORTH_WEST \<Rightarrow> \<lparr>loc_x = loc_x l - 1, loc_y = loc_y l - 1\<rparr>)"

definition example_externals :: externals where
  "example_externals =
     \<lparr>split = comma_split,
      loc_valid = (\<lambda>l. 0 \<le> loc_x l \<and> 0 \<le> loc_y l),
      matches_range = (\<lambda>l xs ys. (xs = [] \<or> (xs = ''5'' \<and> loc_x l = 4)) \<and>
                                   (ys = [] \<or> (ys = ''3'' \<and> loc_y l = 2))),
      get_adjacent_tiles = example_adjacent,
      parse_directions = (\<lambda>s. if s = ''n'' then [NORTH] else if s = ''s'' then [SOUTH]
                               else if s = ''n,n'' then [NORTH, NORTH] else []),
      parse_ranges = (\<lambda>s. if s = ''0'' then [(0, 0)] else if s = ''1'' then [(1, 1)] else []),
      to_int = (\<lambda>a d. d),
      to_bool = (\<lambda>a d. if a = Some ''yes'' then True else if a = Some ''no'' then False else d),
      string_gender = (\<lambda>s. if s = ''female'' then FEMALE else MALE),
      str_cast = (\<lambda>i. if i = 1 then ''1'' else if i = 2 then ''2'' else []),
      unit_types_find = (\<lambda>s. None),
      config_matches = (\<lambda>a b. True),
      get_parsed_config = (\<lambda>fc v. Config [] []),
      formula_matches_filter = (\<lambda>fc s l u. True),
      terrain_filter_match = (\<lambda>fc tf l. True),
      side_filter_match = (\<lambda>fc sf i. True),
      side_filter_get_teams = (\<lambda>fc v. if vattr v ''side'' = Some ''1'' then [1]
                                      else if vattr v ''side'' = Some ''2'' then [2] else [1, 2]),
      scoped_xy_unit = (\<lambda>name x y us gd. gd)\<rparr>"

definition example_unit :: "string \<Rightarrow> int \<Rightarrow> map_location \<Rightarrow> game_unit" where
  "example_unit ident sd l =
     \<lparr>u_name = ident, u_id = ident, u_location = l, u_side = sd,
      u_type_id = ''Elvish Fighter'', u_variation = [],
      u_type = \<lparr>base_id = ''Elvish Fighter'', variations = []\<rparr>,
      u_abilities = [], u_race_id = ''elf'', u_gender = MALE, u_attacks = [''sword'', ''bow''],
      u_role = [], u_state_guardian = False, u_can_recruit = False, u_recall_cost = 20,
      u_level = 1, u_defense_modifier = (\<lambda>t. 50), u_movement_cost = (\<lambda>t. 1),
      u_variables = Config [] [], u_write = Config [] [], u_invisible = (\<lambda>l. False)\<rparr>"

definition here :: map_location where
  "here = \<lparr>loc_x = 4, loc_y = 2\<rparr>"

definition north_of_here :: map_location where
  "north_of_here = \<lparr>loc_x = 4, loc_y = 1\<rparr>"

definition konrad :: game_unit where
  "konrad = example_unit ''Konrad'' 1 here"

definition delfador :: game_unit where
  "delfador = example_unit ''Delfador'' 2 north_of_here"

definition example_team :: "bool \<Rightarrow> int \<Rightarrow> team" where
  "example_team fog own = \<lparr>fogged = (\<lambda>l. fog), is_enemy = (\<lambda>s. s \<noteq> own)\<rparr>"

text \<open>The example world has neither stored variables nor a scripting kernel.\<close>

definition example_fc :: filter_context where
  "example_fc =
     \<lparr>units = [konrad, delfador],
      teams = [example_team False 1, example_team True 2],
      gmap = \<lparr>on_board = (\<lambda>l. 0 \<le> loc_x l \<and> loc_x l < 10 \<and> 0 \<le> loc_y l \<and> loc_y l < 10),
               get_terrain = (\<lambda>l. 0)\<rparr>,
      get_game_data = None,
      get_lua_kernel = None\<rparr>"

text \<open>The members of a filter built from a description with no attribute and no child.\<close>

definition no_constraint :: basic_cfg where
  "no_constraint = init_cfg example_externals False (Vconfig [] [])"

definition named :: "string \<Rightarrow> unit_filter" where
  "named n = Basic_unit_filter_impl (no_constraint\<lparr>cfg_name := Some n\<rparr>) [] []"

section \<open>Evaluation and helper lemmas\<close>

lemmas check_defs = check_name_def check_list_def check_id_def check_speaker_def
  check_filter_loc_def check_filter_side_def check_xy_def check_type_def check_variation_def
  check_has_variation_def check_ability_def check_race_def check_gender_def check_side_def
  check_has_weapon_def check_role_def check_ai_special_def check_canrecruit_def
  check_recall_cost_def check_level_def check_defense_def check_movement_def check_wml_def
  check_wml_one_def check_find_in_def check_formula_def check_lua_function_def
  checks_name_to_variation_def checks_ability_to_wml_def checks_find_in_to_lua_def
  and_then_def lazy_empty_def lazy_find_def lazy_get_def lazy_string_list_of_def
  blank_def str_def attr_empty_def

lemmas example_defs = example_externals_def example_fc_def example_unit_def konrad_def
  delfador_def here_def north_of_here_def no_constraint_def named_def init_cfg_def
  example_team_def auto_store_def

declare internal_matches_filter.simps [simp del]

lemma matches_Inr_run:
  assumes "matches X fc f u loc = Inr r"
  shows "\<exists>cs. matches_run X fc f u loc = Inr (r, cs)"
proof (cases "matches_run X fc f u loc")
  case (Inl e)
  with assms show ?thesis by (simp add: matches_def)
next
  case (Inr p)
  with assms have "fst p = r" by (simp add: matches_def)
  with Inr show ?thesis by (cases p) auto
qed

lemma left_fold_Nil: "left_fold X fc [] u loc m = m"
  by (simp add: left_fold_def)

lemma left_fold_Cons:
  "left_fold X fc ((t, c) # rest) u loc m =
     left_fold X fc rest u loc (cond_apply t m (holds (matches X fc c u loc)))"
  by (simp add: left_fold_def)

lemma calls_upt_Suc:
  "filter P [0..<Suc n] = (if P 0 then [0] else []) @ map Suc (filter (\<lambda>j. P (Suc j)) [0..<n])"
proof -
  have "[0..<Suc n] = 0 # map Suc [0..<n]"
    by (simp add: upt_conv_Cons map_Suc_upt del: upt_Suc)
  then show ?thesis by (simp add: filter_map comp_def del: upt_Suc)
qed

lemma cond_loop_trace:
  assumes "\<forall>tc \<in> set cs. \<exists>r. matches X fc (snd tc) u loc = Inr r"
  shows "cond_loop X fc cs u loc i (m, called) =
           Inr (left_fold X fc cs u loc m,
                called @ map (\<lambda>j. i + j)
                  (filter (\<lambda>j. calls_child (fst (cs ! j)) (left_fold X fc (take j cs) u loc m))
                     [0..<length cs]))"
  using assms
proof (induction cs arbitrary: i m called)
  case Nil
  show ?case by (simp add: left_fold_Nil)
next
  case (Cons tc rest)
  obtain t c where tc: "tc = (t, c)" by (cases tc)
  from Cons.prems tc obtain r where r: "matches X fc c u loc = Inr r" by auto
  then obtain cs' where run: "matches_run X fc c u loc = Inr (r, cs')"
    using matches_Inr_run by blast
  have rest: "\<forall>tc \<in> set rest. \<exists>r. matches X fc (snd tc) u loc = Inr r"
    using Cons.prems by simp
  let ?m' = "cond_apply t m r"
  let ?P = "\<lambda>m j. calls_child (fst (rest ! j)) (left_fold X fc (take j rest) u loc m)"
  have tail: "\<And>called'. cond_loop X fc rest u loc (Suc i) (?m', called') =
      Inr (left_fold X fc rest u loc ?m',
           called' @ map (\<lambda>j. Suc i + j) (filter (?P ?m') [0..<length rest]))"
    using Cons.IH [OF rest] by blast
  have step: "cond_loop X fc (tc # rest) u loc i (m, called) =
      cond_loop X fc rest u loc (Suc i) (?m', if calls_child t m then called @ [i] else called)"
    using run by (cases t; cases m) (simp_all add: tc cond_apply_def calls_child_def)
  have h: "holds (matches X fc c u loc) = r" by (simp add: r holds_def)
  have sel: "filter (\<lambda>j. calls_child (fst ((tc # rest) ! j))
                 (left_fold X fc (take j (tc # rest)) u loc m)) [0..<length (tc # rest)] =
             (if calls_child t m then [0] else []) @ map Suc (filter (?P ?m') [0..<length rest])"
    by (simp add: calls_upt_Suc tc left_fold_Nil left_fold_Cons h del: upt_Suc)
  show ?case
    unfolding step sel tail
    by (simp add: tc left_fold_Cons h comp_def)
qed

lemma cond_loop_result:
  assumes "cond_loop X fc cs u loc i (m, called) = Inr (b, called')"
  shows "b = left_fold X fc cs u loc m"
  using assms
proof (induction cs arbitrary: i m called)
  case Nil
  then show ?case by (simp add: left_fold_Nil)
next
  case (Cons tc rest)
  obtain t c where tc: "tc = (t, c)" by (cases tc)
  show ?case
  proof (cases "calls_child t m")
    case False
    then have skip: "cond_loop X fc (tc # rest) u loc i (m, called) =
        cond_loop X fc rest u loc (Suc i) (m, called)"
      by (cases t; cases m) (simp_all add: tc calls_child_def)
    from False have "cond_apply t m (holds (matches X fc c u loc)) = m"
      by (cases t; cases m) (simp_all add: calls_child_def cond_apply_def)
    with Cons.IH [of "Suc i" m called] Cons.prems skip show ?thesis
      by (simp add: tc left_fold_Cons)
  next
    case True
    show ?thesis
    proof (cases "matches_run X fc c u loc")
      case (Inl e)
      with True Cons.prems show ?thesis
        by (cases t; cases m) (simp_all add: tc calls_child_def)
    next
      case (Inr p)
      obtain r cs' where p: "p = (r, cs')" by (cases p)
      have h: "holds (matches X fc c u loc) = r"
        using Inr p by (simp add: matches_def holds_def)
      from True Inr p have call: "cond_loop X fc (tc # rest) u loc i (m, called) =
          cond_loop X fc rest u loc (Suc i) (cond_apply t m r, called @ [i])"
        by (cases t; cases m) (simp_all add: tc calls_child_def cond_apply_def)
      with Cons.IH [of "Suc i" "cond_apply t m r" "called @ [i]"] Cons.prems show ?thesis
        by (simp add: tc left_fold_Cons h)
    qed
  qed
qed

lemma internal_find_in:
  assumes "get_game_data fc = None"
  shows "internal_matches_filter X fc (cfg\<lparr>cfg_find_in := None\<rparr>) adjs u loc =
         internal_matches_filter X fc cfg adjs u loc"
proof -
  have a: "checks_name_to_variation X fc (cfg\<lparr>cfg_find_in := None\<rparr>) u loc =
           checks_name_to_variation X fc cfg u loc"
    by (simp add: check_defs split: option.split)
  have b: "check_has_variation X (cfg\<lparr>cfg_find_in := None\<rparr>) u = check_has_variation X cfg u"
    by (simp add: check_has_variation_def split: option.split)
  have c: "checks_ability_to_wml X fc (cfg\<lparr>cfg_find_in := None\<rparr>) u loc =
           checks_ability_to_wml X fc cfg u loc"
    by (simp add: check_defs split: option.split)
  have d: "checks_find_in_to_lua X fc (cfg\<lparr>cfg_find_in := None\<rparr>) u loc =
           checks_find_in_to_lua X fc cfg u loc"
    using assms
    by (simp add: checks_find_in_to_lua_def check_find_in_def check_formula_def
        check_lua_function_def blank_def split: option.split)
  show ?thesis by (simp add: internal_matches_filter.simps a b c d)
qed

section \<open>The combinator fold\<close>

text \<open>
  C1. For a basic filter whose local predicate returns an answer, \<open>matches\<close> is the
  left fold, in the order of the description, of the local result through the combinator
  entries (\<open>left_fold\<close>: an AND child gives \<open>acc \<and> child\<close>, an OR child
  \<open>acc \<or> child\<close>, a NOT child \<open>acc \<and> \<not> child\<close>): it returns that value when the
  children return an answer, and whatever it returns is that value. In particular, with a
  false local predicate and the children \<open>[AND f1, OR f2]\<close> with \<open>f2\<close> true, the filter
  matches, whatever \<open>f1\<close> is.
\<close>

theorem matches_is_left_fold:
  assumes "local_predicate X fc cfg adjs u loc = Inr l"
  shows "((\<forall>tc \<in> set conds. \<exists>r. matches X fc (snd tc) u loc = Inr r) \<longrightarrow>
            matches X fc (Basic_unit_filter_impl cfg conds adjs) u loc =
              Inr (left_fold X fc conds u loc l)) \<and>
         (\<forall>b. matches X fc (Basic_unit_filter_impl cfg conds adjs) u loc = Inr b \<longrightarrow>
              b = left_fold X fc conds u loc l) \<and>
         (\<not> l \<and> matches X fc f2 u loc = Inr True \<longrightarrow>
            matches X fc (Basic_unit_filter_impl cfg [(AND, f1), (OR, f2)] adjs) u loc = Inr True)"
proof -
  have loc: "(if loc_valid X loc
        then internal_matches_filter X (auto_store X fc loc) cfg adjs u loc
        else internal_matches_filter X fc cfg adjs u loc) = Inr l"
    using assms by (simp add: local_predicate_def)
  have run: "\<And>cs. matches_run X fc (Basic_unit_filter_impl cfg cs adjs) u loc =
      cond_loop X fc cs u loc 0 (l, [])"
    using loc by simp
  have total: "(\<forall>tc \<in> set conds. \<exists>r. matches X fc (snd tc) u loc = Inr r) \<longrightarrow>
      matches X fc (Basic_unit_filter_impl cfg conds adjs) u loc =
        Inr (left_fold X fc conds u loc l)"
  proof
    assume ch: "\<forall>tc \<in> set conds. \<exists>r. matches X fc (snd tc) u loc = Inr r"
    show "matches X fc (Basic_unit_filter_impl cfg conds adjs) u loc =
        Inr (left_fold X fc conds u loc l)"
      unfolding matches_def run cond_loop_trace [OF ch] by simp
  qed
  have partial: "\<forall>b. matches X fc (Basic_unit_filter_impl cfg conds adjs) u loc = Inr b \<longrightarrow>
      b = left_fold X fc conds u loc l"
  proof (intro allI impI)
    fix b
    assume "matches X fc (Basic_unit_filter_impl cfg conds adjs) u loc = Inr b"
    then obtain cs where "cond_loop X fc conds u loc 0 (l, []) = Inr (b, cs)"
      using matches_Inr_run [of X fc "Basic_unit_filter_impl cfg conds adjs" u loc b]
      unfolding run by blast
    then show "b = left_fold X fc conds u loc l" by (rule cond_loop_result)
  qed
  have particular: "\<not> l \<and> matches X fc f2 u loc = Inr True \<longrightarrow>
      matches X fc (Basic_unit_filter_impl cfg [(AND, f1), (OR, f2)] adjs) u loc = Inr True"
  proof
    assume a: "\<not> l \<and> matches X fc f2 u loc = Inr True"
    then obtain cs where "matches_run X fc f2 u loc = Inr (True, cs)"
      using matches_Inr_run by blast
    with a show "matches X fc (Basic_unit_filter_impl cfg [(AND, f1), (OR, f2)] adjs) u loc = Inr True"
      unfolding matches_def run by simp
  qed
  from total partial particular show ?thesis by blast
qed

theorem matches_is_left_fold_witness:
  "local_predicate example_externals example_fc (no_constraint\<lparr>cfg_name := Some ''Delfador''\<rparr>) []
     konrad here = Inr False \<and>
   matches example_externals example_fc (named ''Delfador'') konrad here = Inr False \<and>
   matches example_externals example_fc Null_unit_filter_impl konrad here = Inr True \<and>
   matches example_externals example_fc
     (Basic_unit_filter_impl (no_constraint\<lparr>cfg_name := Some ''Delfador''\<rparr>)
        [(AND, named ''Delfador''), (OR, Null_unit_filter_impl)] [])
     konrad here = Inr True"
proof -
  let ?cfg = "no_constraint\<lparr>cfg_name := Some ''Delfador''\<rparr>"
  let ?conds = "[(AND, named ''Delfador''), (OR, Null_unit_filter_impl)]"
  have l: "local_predicate example_externals example_fc ?cfg [] konrad here = Inr False"
    by (simp add: local_predicate_def internal_matches_filter.simps example_defs check_defs)
  have f1: "matches example_externals example_fc (named ''Delfador'') konrad here = Inr False"
    by (simp add: matches_def internal_matches_filter.simps example_defs check_defs)
  have f2: "matches example_externals example_fc Null_unit_filter_impl konrad here = Inr True"
    by (simp add: matches_def)
  have ch: "\<forall>tc \<in> set ?conds. \<exists>r. matches example_externals example_fc (snd tc) konrad here = Inr r"
    using f1 f2 by auto
  from matches_is_left_fold [OF l, of ?conds Null_unit_filter_impl "named ''Delfador''"] ch
  have "matches example_externals example_fc (Basic_unit_filter_impl ?cfg ?conds []) konrad here =
      Inr (left_fold example_externals example_fc ?conds konrad here False)"
    by blast
  then show ?thesis using l f1 f2 by (simp add: left_fold_def cond_apply_def holds_def)
qed

text \<open>
  C2, as amended. A child's \<open>matches\<close> is called at most once in a query, and not
  always: the loop calls the child at index \<open>i\<close> exactly when the accumulator it has on
  reaching it (the left fold through the first \<open>i\<close> entries) is true for an AND or NOT
  child, false for an OR child. The calls are made in the order of the description.
\<close>

theorem cond_calls_short_circuit:
  assumes "local_predicate X fc cfg adjs u loc = Inr l"
    and "\<forall>tc \<in> set conds. \<exists>r. matches X fc (snd tc) u loc = Inr r"
  shows "cond_calls X fc (Basic_unit_filter_impl cfg conds adjs) u loc =
           Inr (filter (\<lambda>i. calls_child (fst (conds ! i)) (left_fold X fc (take i conds) u loc l))
                  [0..<length conds])"
  using assms(1) cond_loop_trace [OF assms(2), of 0 l "[]"]
  by (simp add: cond_calls_def local_predicate_def split: if_splits)

theorem cond_calls_short_circuit_witness:
  "cond_calls example_externals example_fc
     (Basic_unit_filter_impl no_constraint
        [(OR, named ''Delfador''), (AND, named ''Konrad''), (NOT, named ''Delfador'')] [])
     konrad here = Inr [1, 2]"
proof -
  let ?conds = "[(OR, named ''Delfador''), (AND, named ''Konrad''), (NOT, named ''Delfador'')]"
  have l: "local_predicate example_externals example_fc no_constraint [] konrad here = Inr True"
    by (simp add: local_predicate_def internal_matches_filter.simps example_defs check_defs)
  have f1: "matches example_externals example_fc (named ''Delfador'') konrad here = Inr False"
    by (simp add: matches_def internal_matches_filter.simps example_defs check_defs)
  have f2: "matches example_externals example_fc (named ''Konrad'') konrad here = Inr True"
    by (simp add: matches_def internal_matches_filter.simps example_defs check_defs)
  have ch: "\<forall>tc \<in> set ?conds. \<exists>r. matches example_externals example_fc (snd tc) konrad here = Inr r"
    using f1 f2 by auto
  have upt: "[0..<3] = [0, 1, 2]" by (simp add: upt_rec)
  from cond_calls_short_circuit [OF l ch]
  show ?thesis
    using f1 f2 by (simp add: upt left_fold_def cond_apply_def calls_child_def holds_def)
qed

text \<open>
  The claim as stated fails: with a false local predicate, the child of an AND entry is
  never called.
\<close>

theorem cond_calls_not_every_child:
  "cond_calls example_externals example_fc
     (Basic_unit_filter_impl (no_constraint\<lparr>cfg_name := Some ''Delfador''\<rparr>)
        [(AND, Null_unit_filter_impl)] [])
     konrad here = Inr []"
  by (simp add: cond_calls_def internal_matches_filter.simps example_defs check_defs)

section \<open>The null filter\<close>

text \<open>
  C3. The filter built from a null description is the null filter; it matches every
  unit at every location, and its enumeration is the whole unit collection of the world.
\<close>

theorem null_filter_matches_everything:
  "construct X fc flat_tod Null_vconfig = Inr Null_unit_filter_impl \<and>
   unit_filter_of X Null_vconfig (Some fc) flat_tod = Inr Null_unit_filter_impl \<and>
   matches X fc Null_unit_filter_impl u loc = Inr True \<and>
   all_matches_on_map X fc Null_unit_filter_impl = Inr (units fc)"
  by (simp add: matches_def unit_filter_of_def)

theorem null_filter_matches_everything_witness:
  "construct example_externals example_fc False Null_vconfig = Inr Null_unit_filter_impl \<and>
   matches example_externals example_fc Null_unit_filter_impl delfador here = Inr True \<and>
   all_matches_on_map example_externals example_fc Null_unit_filter_impl = Inr [konrad, delfador]"
  using null_filter_matches_everything [of example_externals example_fc False delfador here]
  by (simp add: example_fc_def)

section \<open>The stored variable check without game data\<close>

text \<open>
  C10. When the game data pointer of the context is null, a filter with a
  \<open>find_in\<close> attribute gives the result of the same filter without it, whatever the
  variable named.
\<close>

theorem find_in_skipped_without_game_data:
  assumes "get_game_data fc = None"
  shows "matches X fc (Basic_unit_filter_impl cfg conds adjs) u loc =
         matches X fc (Basic_unit_filter_impl (cfg\<lparr>cfg_find_in := None\<rparr>) conds adjs) u loc"
proof -
  have "get_game_data (auto_store X fc loc) = None"
    using assms by (simp add: auto_store_def)
  then show ?thesis
    using assms by (simp add: matches_def internal_find_in)
qed

theorem find_in_skipped_without_game_data_witness:
  "get_game_data example_fc = None \<and>
   matches example_externals example_fc
     (Basic_unit_filter_impl (no_constraint\<lparr>cfg_find_in := Some ''no_such_variable''\<rparr>) [] [])
     konrad here = Inr True"
proof -
  have gd: "get_game_data example_fc = None" by (simp add: example_fc_def)
  have upd: "no_constraint\<lparr>cfg_find_in := Some ''no_such_variable''\<rparr>\<lparr>cfg_find_in := None\<rparr> = no_constraint"
    by (simp add: no_constraint_def init_cfg_def)
  have plain: "matches example_externals example_fc (Basic_unit_filter_impl no_constraint [] [])
      konrad here = Inr True"
    by (simp add: matches_def internal_matches_filter.simps example_defs check_defs)
  from find_in_skipped_without_game_data [OF gd, of example_externals
      "no_constraint\<lparr>cfg_find_in := Some ''no_such_variable''\<rparr>" "[]" "[]" konrad here]
  show ?thesis using gd plain by (simp add: upd)
qed

section \<open>Construction errors\<close>

lemma construct_fails_iff:
  "isl (construct X fc flat_tod v) = list_ex repeats_single_block (filter_nodes v)"
  "isl (ctor_loop X fc flat_tod cs st) =
     (2 \<le> (if cfg_filter_loc (fst st) = None then 0 else 1) +
            length (filter (\<lambda>kc. fst kc = ''filter_location'') cs) \<or>
      2 \<le> (if cfg_filter_side (fst st) = None then 0 else 1) +
            length (filter (\<lambda>kc. fst kc = ''filter_side'') cs) \<or>
      list_ex repeats_single_block (child_filter_nodes cs))"
proof (induction X fc flat_tod v and X fc flat_tod cs st rule: construct_ctor_loop.induct)
  case (1 X fc flat_tod)
  show ?case by (simp add: repeats_single_block_def)
next
  case (2 X fc flat_tod attrs cs)
  have "isl (construct X fc flat_tod (Vconfig attrs cs)) =
      isl (ctor_loop X fc flat_tod cs (init_cfg X flat_tod (Vconfig attrs cs), [], []))"
    by (simp split: sum.splits prod.splits)
  then show ?case
    using 2 by (simp add: repeats_single_block_def init_cfg_def)
next
  case (3 X fc flat_tod st)
  show ?case by simp
next
  case (4 X fc flat_tod cond_name child rest cfg conds adjs)
  have lits: "string_to_TYPE ''filter_vision'' = None" "string_to_TYPE ''filter_adjacent'' = None"
    "string_to_TYPE ''filter_location'' = None" "string_to_TYPE ''filter_side'' = None"
    by (simp_all add: string_to_TYPE_def)
  consider
    (cond) t where "string_to_TYPE cond_name = Some t"
    | (vision) "string_to_TYPE cond_name = None" "cond_name = ''filter_vision''"
    | (adjacent) "string_to_TYPE cond_name = None" "cond_name \<noteq> ''filter_vision''"
        "cond_name = ''filter_adjacent''"
    | (location) "string_to_TYPE cond_name = None" "cond_name \<noteq> ''filter_vision''"
        "cond_name \<noteq> ''filter_adjacent''" "cond_name = ''filter_location''"
    | (side) "string_to_TYPE cond_name = None" "cond_name \<noteq> ''filter_vision''"
        "cond_name \<noteq> ''filter_adjacent''" "cond_name \<noteq> ''filter_location''"
        "cond_name = ''filter_side''"
    | (other) "string_to_TYPE cond_name = None" "cond_name \<noteq> ''filter_vision''"
        "cond_name \<noteq> ''filter_adjacent''" "cond_name \<noteq> ''filter_location''"
        "cond_name \<noteq> ''filter_side''"
    using lits by (cases "string_to_TYPE cond_name") auto
  then show ?case
  proof cases
    case cond
    then have nm: "cond_name \<noteq> ''filter_location''" "cond_name \<noteq> ''filter_side''"
      by (auto simp: string_to_TYPE_def split: if_splits)
    show ?thesis
    proof (cases "construct X fc flat_tod child")
      case (Inl e)
      with 4(7) [OF cond] cond show ?thesis by simp
    next
      case (Inr f)
      with 4(7) [OF cond] 4(8) [OF cond Inr] cond nm show ?thesis by simp
    qed
  next
    case vision
    with 4(1) show ?thesis by simp
  next
    case adjacent
    show ?thesis
    proof (cases "construct X fc flat_tod child")
      case (Inl e)
      with 4(2) [OF adjacent] adjacent show ?thesis by simp
    next
      case (Inr f)
      with 4(2) [OF adjacent] 4(3) [OF adjacent Inr] adjacent show ?thesis by simp
    qed
  next
    case location
    show ?thesis
    proof (cases "cfg_filter_loc cfg")
      case None
      with 4(4) [OF location None] location show ?thesis by simp
    next
      case (Some tf)
      with location show ?thesis by simp
    qed
  next
    case side
    show ?thesis
    proof (cases "cfg_filter_side cfg")
      case None
      with 4(5) [OF side None] side show ?thesis by simp
    next
      case (Some sf)
      with side show ?thesis by simp
    qed
  next
    case other
    with 4(6) show ?thesis by simp
  qed
qed

text \<open>
  C4. Constructing a filter fails with one of the two errors exactly when some filter
  node of the description has two or more \<open>filter_location\<close> children or two or more
  \<open>filter_side\<close> children; in particular it fails when the description itself has, and
  it returns a filter when every filter node has at most one of each.
\<close>

theorem construct_fails_on_repeated_block:
  "(\<exists>e. construct X fc flat_tod v = Inl e) =
     (\<exists>n \<in> set (filter_nodes v).
        2 \<le> length (get_children n ''filter_location'') \<or>
        2 \<le> length (get_children n ''filter_side'')) \<and>
   (2 \<le> length (get_children v ''filter_location'') \<or> 2 \<le> length (get_children v ''filter_side'')
      \<longrightarrow> (\<exists>e. construct X fc flat_tod v = Inl e)) \<and>
   ((\<forall>n \<in> set (filter_nodes v).
        length (get_children n ''filter_location'') \<le> 1 \<and>
        length (get_children n ''filter_side'') \<le> 1)
      \<longrightarrow> (\<exists>f. construct X fc flat_tod v = Inr f))"
proof -
  have fails: "(\<exists>e. construct X fc flat_tod v = Inl e) = isl (construct X fc flat_tod v)"
    by (cases "construct X fc flat_tod v") simp_all
  have returns: "(\<exists>f. construct X fc flat_tod v = Inr f) = (\<not> isl (construct X fc flat_tod v))"
    by (cases "construct X fc flat_tod v") simp_all
  have root: "v \<in> set (filter_nodes v)"
    by (cases v) simp_all
  have iff: "isl (construct X fc flat_tod v) =
      (\<exists>n \<in> set (filter_nodes v).
         2 \<le> length (get_children n ''filter_location'') \<or>
         2 \<le> length (get_children n ''filter_side''))"
    by (simp add: construct_fails_iff(1) list_ex_iff repeats_single_block_def)
  show ?thesis
    unfolding fails returns iff using root by (auto simp: not_le less_Suc_eq_le)
qed

theorem construct_fails_on_repeated_block_witness:
  "(\<exists>e. construct example_externals example_fc False
          (Vconfig [] [(''filter_location'', Vconfig [] []), (''filter_location'', Vconfig [] [])])
        = Inl e) \<and>
   (\<exists>f. construct example_externals example_fc False
          (Vconfig [(''name'', ''Konrad'')]
             [(''filter_location'', Vconfig [] []), (''filter_side'', Vconfig [] []),
              (''not'', Vconfig [] [(''filter_location'', Vconfig [] [])])])
        = Inr f) \<and>
   (\<exists>e. construct example_externals example_fc False
          (Vconfig [] [(''and'', Vconfig [] [(''filter_side'', Vconfig [] []),
                                            (''filter_side'', Vconfig [] [])])])
        = Inl e)"
  using
    construct_fails_on_repeated_block [of example_externals example_fc False
      "Vconfig [] [(''filter_location'', Vconfig [] []), (''filter_location'', Vconfig [] [])]"]
    construct_fails_on_repeated_block [of example_externals example_fc False
      "Vconfig [(''name'', ''Konrad'')]
         [(''filter_location'', Vconfig [] []), (''filter_side'', Vconfig [] []),
          (''not'', Vconfig [] [(''filter_location'', Vconfig [] [])])]"]
    construct_fails_on_repeated_block [of example_externals example_fc False
      "Vconfig [] [(''and'', Vconfig [] [(''filter_side'', Vconfig [] []),
                                        (''filter_side'', Vconfig [] [])])]"]
  by (simp add: string_to_TYPE_def)

lemma construct_examples:
  "construct example_externals example_fc False
     (Vconfig [] [(''filter_location'', Vconfig [] []), (''filter_location'', Vconfig [] [])])
     = Inl Multiple_filter_location"
  "construct example_externals example_fc False
     (Vconfig [] [(''and'', Vconfig [] [(''filter_side'', Vconfig [] []),
                                       (''filter_side'', Vconfig [] [])])])
     = Inl Multiple_filter_side"
  by (simp_all add: string_to_TYPE_def init_cfg_def)

section \<open>The x and y attributes\<close>

text \<open>
  C5, as amended. When at least one of \<open>x\<close> and \<open>y\<close> is present: if both are the
  literal \<open>recall\<close> the check passes exactly when the location is not on the board; if
  both are empty (absent or the empty string) the check fails; otherwise, also when only
  one of the two is given, the check passes exactly when \<open>matches_range\<close> accepts the
  location for the two range strings. With neither present the check passes, and a failed
  check makes the local predicate false.
\<close>

theorem xy_check:
  "(\<not> blank (cfg_x cfg) \<or> \<not> blank (cfg_y cfg) \<longrightarrow>
      check_xy X fc cfg loc =
        (if cfg_x cfg = Some ''recall'' \<and> cfg_y cfg = Some ''recall''
         then \<not> on_board (gmap fc) loc
         else if attr_empty (cfg_x cfg) \<and> attr_empty (cfg_y cfg) then False
         else matches_range X loc (str (cfg_x cfg)) (str (cfg_y cfg)))) \<and>
   (blank (cfg_x cfg) \<and> blank (cfg_y cfg) \<longrightarrow> check_xy X fc cfg loc) \<and>
   (\<not> check_xy X fc cfg loc \<longrightarrow> internal_matches_filter X fc cfg adjs u loc = Inr False)"
  by (simp add: check_xy_def internal_matches_filter.simps checks_name_to_variation_def
      and_then_def)

theorem xy_check_witness:
  "check_xy example_externals example_fc
     (no_constraint\<lparr>cfg_x := Some ''recall'', cfg_y := Some ''recall''\<rparr>) here = False \<and>
   check_xy example_externals example_fc
     (no_constraint\<lparr>cfg_x := Some ''recall'', cfg_y := Some ''recall''\<rparr>)
     \<lparr>loc_x = - 1, loc_y = - 1\<rparr> = True \<and>
   check_xy example_externals example_fc (no_constraint\<lparr>cfg_x := Some []\<rparr>) here = False \<and>
   check_xy example_externals example_fc
     (no_constraint\<lparr>cfg_x := Some ''5'', cfg_y := Some ''3''\<rparr>) here = True \<and>
   check_xy example_externals example_fc
     (no_constraint\<lparr>cfg_x := Some ''5'', cfg_y := Some ''3''\<rparr>) north_of_here = False \<and>
   internal_matches_filter example_externals example_fc
     (no_constraint\<lparr>cfg_x := Some ''5'', cfg_y := Some ''3''\<rparr>) [] delfador north_of_here = Inr False"
  using
    xy_check [of "no_constraint\<lparr>cfg_x := Some ''recall'', cfg_y := Some ''recall''\<rparr>"
      example_externals example_fc here "[]" konrad]
    xy_check [of "no_constraint\<lparr>cfg_x := Some ''recall'', cfg_y := Some ''recall''\<rparr>"
      example_externals example_fc "\<lparr>loc_x = - 1, loc_y = - 1\<rparr>" "[]" konrad]
    xy_check [of "no_constraint\<lparr>cfg_x := Some []\<rparr>" example_externals example_fc here "[]" konrad]
    xy_check [of "no_constraint\<lparr>cfg_x := Some ''5'', cfg_y := Some ''3''\<rparr>"
      example_externals example_fc here "[]" konrad]
    xy_check [of "no_constraint\<lparr>cfg_x := Some ''5'', cfg_y := Some ''3''\<rparr>"
      example_externals example_fc north_of_here "[]" delfador]
  by (simp add: example_defs blank_def str_def attr_empty_def)

text \<open>
  The claim as stated fails: a pair with \<open>x\<close> given and \<open>y\<close> absent is handed to
  \<open>matches_range\<close>, and the filter matches a unit in that column.
\<close>

theorem xy_incomplete_pair_matches:
  "cfg_x (no_constraint\<lparr>cfg_x := Some ''5''\<rparr>) = Some ''5'' \<and>
   blank (cfg_y (no_constraint\<lparr>cfg_x := Some ''5''\<rparr>)) \<and>
   check_xy example_externals example_fc (no_constraint\<lparr>cfg_x := Some ''5''\<rparr>) here \<and>
   matches example_externals example_fc
     (Basic_unit_filter_impl (no_constraint\<lparr>cfg_x := Some ''5''\<rparr>) [] []) konrad here = Inr True"
  by (simp add: matches_def internal_matches_filter.simps example_defs check_defs)

section \<open>The vision check\<close>

lemma vision_found_exists:
  assumes "\<forall>v \<in> set viewers. 1 \<le> v \<and> v \<le> int (length (teams fc))"
  shows "vision_found fc u loc b viewers = Inr (\<exists>v \<in> set viewers. hidden_from fc u loc v = (\<not> b))"
  using assms
proof (induction viewers)
  case Nil
  show ?case by simp
next
  case (Cons v vs)
  then have "teams_at (teams fc) (v - 1) = Some (teams fc ! nat (v - 1))"
    by (simp add: teams_at_def)
  with Cons show ?case
    by (auto simp: hidden_from_def Let_def)
qed

lemma vision_check_lists:
  assumes "\<forall>vf \<in> set vfs. \<forall>v \<in> set (fst vf). 1 \<le> v \<and> v \<le> int (length (teams fc))"
  shows "check_vision fc vfs u loc =
           Inr (\<forall>vf \<in> set vfs. \<exists>v \<in> set (fst vf). hidden_from fc u loc v = (\<not> snd vf))"
  using assms
proof (induction vfs)
  case Nil
  show ?case by simp
next
  case (Cons vf rest)
  obtain viewers b where vf: "vf = (viewers, b)" by (cases vf)
  have "vision_found fc u loc b viewers =
      Inr (\<exists>v \<in> set viewers. hidden_from fc u loc v = (\<not> b))"
    using Cons.prems vf by (intro vision_found_exists) simp
  moreover have "check_vision fc rest u loc =
      Inr (\<forall>vf \<in> set rest. \<exists>v \<in> set (fst vf). hidden_from fc u loc v = (\<not> snd vf))"
    using Cons by simp
  ultimately show ?case by (auto simp: vf)
qed

lemma internal_true_iff:
  "(internal_matches_filter X fc cfg adjs u loc = Inr True) =
     (checks_name_to_variation X fc cfg u loc \<and>
      check_has_variation X cfg u = Inr True \<and>
      checks_ability_to_wml X fc cfg u loc \<and>
      check_vision fc (vision_filters cfg) u loc = Inr True \<and>
      adj_loop X fc adjs u loc = Inr True \<and>
      checks_find_in_to_lua X fc cfg u loc)"
  by (auto simp: internal_matches_filter.simps and_then_def split: sum.splits)

text \<open>
  C6. When every viewer is a side of the world, the vision check passes exactly when
  each vision filter has at least one viewer side whose hidden state for the unit at the
  location fits the required visibility: the unit is hidden from that side (its fog covers
  the location or the unit is concealed there) exactly when the filter does not want it
  visible. \<open>internal_matches_filter\<close> returns true exactly when this holds together
  with its other checks, returns false when this fails after the checks before it have
  passed, and so the local predicate and \<open>matches\<close> of a filter without combinator
  children are true only if it holds.
\<close>

theorem vision_check_any_viewer:
  assumes "\<forall>vf \<in> set (vision_filters cfg). \<forall>v \<in> set (fst vf).
             1 \<le> v \<and> v \<le> int (length (teams fc))"
  shows "check_vision fc (vision_filters cfg) u loc =
           Inr (\<forall>vf \<in> set (vision_filters cfg).
                  \<exists>v \<in> set (fst vf). hidden_from fc u loc v = (\<not> snd vf)) \<and>
         (internal_matches_filter X fc cfg adjs u loc = Inr True) =
           (checks_name_to_variation X fc cfg u loc \<and>
            check_has_variation X cfg u = Inr True \<and>
            checks_ability_to_wml X fc cfg u loc \<and>
            (\<forall>vf \<in> set (vision_filters cfg).
               \<exists>v \<in> set (fst vf). hidden_from fc u loc v = (\<not> snd vf)) \<and>
            adj_loop X fc adjs u loc = Inr True \<and>
            checks_find_in_to_lua X fc cfg u loc) \<and>
         (checks_name_to_variation X fc cfg u loc \<and>
          check_has_variation X cfg u = Inr True \<and>
          checks_ability_to_wml X fc cfg u loc \<and>
          \<not> (\<forall>vf \<in> set (vision_filters cfg).
                \<exists>v \<in> set (fst vf). hidden_from fc u loc v = (\<not> snd vf))
          \<longrightarrow> internal_matches_filter X fc cfg adjs u loc = Inr False) \<and>
         (local_predicate X fc cfg adjs u loc = Inr True \<longrightarrow>
            (\<forall>vf \<in> set (vision_filters cfg).
               \<exists>v \<in> set (fst vf). hidden_from fc u loc v = (\<not> snd vf))) \<and>
         (matches X fc (Basic_unit_filter_impl cfg [] adjs) u loc = Inr True \<longrightarrow>
            (\<forall>vf \<in> set (vision_filters cfg).
               \<exists>v \<in> set (fst vf). hidden_from fc u loc v = (\<not> snd vf)))"
proof -
  let ?pass = "\<lambda>c. \<forall>vf \<in> set (vision_filters cfg).
      \<exists>v \<in> set (fst vf). hidden_from c u loc v = (\<not> snd vf)"
  have vis: "\<And>c. teams c = teams fc \<Longrightarrow>
      check_vision c (vision_filters cfg) u loc = Inr (?pass c)"
  proof -
    fix c :: filter_context
    assume "teams c = teams fc"
    with assms have "\<forall>vf \<in> set (vision_filters cfg). \<forall>v \<in> set (fst vf).
        1 \<le> v \<and> v \<le> int (length (teams c))"
      by simp
    then show "check_vision c (vision_filters cfg) u loc = Inr (?pass c)"
      by (rule vision_check_lists)
  qed
  have a: "check_vision fc (vision_filters cfg) u loc = Inr (?pass fc)"
    by (rule vis) simp
  have b: "(internal_matches_filter X fc cfg adjs u loc = Inr True) =
      (checks_name_to_variation X fc cfg u loc \<and>
       check_has_variation X cfg u = Inr True \<and>
       checks_ability_to_wml X fc cfg u loc \<and>
       ?pass fc \<and>
       adj_loop X fc adjs u loc = Inr True \<and>
       checks_find_in_to_lua X fc cfg u loc)"
    by (simp add: internal_true_iff a)
  have c: "checks_name_to_variation X fc cfg u loc \<and>
      check_has_variation X cfg u = Inr True \<and>
      checks_ability_to_wml X fc cfg u loc \<and> \<not> ?pass fc
      \<longrightarrow> internal_matches_filter X fc cfg adjs u loc = Inr False"
    unfolding internal_matches_filter.simps a by (auto simp: and_then_def)
  have scoped: "check_vision (auto_store X fc loc) (vision_filters cfg) u loc = Inr (?pass fc)"
    using vis [of "auto_store X fc loc"]
    by (simp add: auto_store_def hidden_from_def)
  have d: "local_predicate X fc cfg adjs u loc = Inr True \<longrightarrow> ?pass fc"
    using a scoped by (auto simp: local_predicate_def internal_true_iff split: if_splits)
  have e: "matches X fc (Basic_unit_filter_impl cfg [] adjs) u loc = Inr True \<longrightarrow> ?pass fc"
  proof
    assume "matches X fc (Basic_unit_filter_impl cfg [] adjs) u loc = Inr True"
    then have "local_predicate X fc cfg adjs u loc = Inr True"
      by (auto simp: matches_def local_predicate_def split: sum.splits if_splits)
    with d show "?pass fc" by blast
  qed
  from a b c d e show ?thesis by blast
qed


theorem vision_check_any_viewer_witness:
  "construct example_externals example_fc False
     (Vconfig [] [(''filter_vision'', Vconfig [(''visible'', ''no''), (''side'', ''2'')] [])]) =
     Inr (Basic_unit_filter_impl (no_constraint\<lparr>vision_filters := [([2], False)]\<rparr>) [] []) \<and>
   matches example_externals example_fc
     (Basic_unit_filter_impl (no_constraint\<lparr>vision_filters := [([2], False)]\<rparr>) [] [])
     konrad here = Inr True \<and>
   matches example_externals example_fc
     (Basic_unit_filter_impl (no_constraint\<lparr>vision_filters := [([1], False)]\<rparr>) [] [])
     konrad here = Inr False \<and>
   check_vision example_fc [([1, 2], False)] konrad here = Inr True \<and>
   check_vision example_fc [([1], False)] konrad here = Inr False \<and>
   check_vision example_fc [([1, 2], True), ([2], True)] konrad here = Inr False"
proof -
  have len: "length (teams example_fc) = 2" by (simp add: example_fc_def)
  have h1: "hidden_from example_fc konrad here 1 = False"
    by (simp add: hidden_from_def example_defs)
  have h2: "hidden_from example_fc konrad here 2 = True"
    by (simp add: hidden_from_def example_defs)
  have built: "construct example_externals example_fc False
      (Vconfig [] [(''filter_vision'', Vconfig [(''visible'', ''no''), (''side'', ''2'')] [])]) =
      Inr (Basic_unit_filter_impl (no_constraint\<lparr>vision_filters := [([2], False)]\<rparr>) [] [])"
    by (simp add: string_to_TYPE_def init_cfg_def no_constraint_def vision_entry_def
        example_externals_def)
  have m2: "matches example_externals example_fc
      (Basic_unit_filter_impl (no_constraint\<lparr>vision_filters := [([2], False)]\<rparr>) [] [])
      konrad here = Inr True"
    by (simp add: matches_def internal_matches_filter.simps example_defs check_defs teams_at_def)
  have m1: "matches example_externals example_fc
      (Basic_unit_filter_impl (no_constraint\<lparr>vision_filters := [([1], False)]\<rparr>) [] [])
      konrad here = Inr False"
    by (simp add: matches_def internal_matches_filter.simps example_defs check_defs teams_at_def)
  have v1: "check_vision example_fc [([1, 2], False)] konrad here = Inr True"
    using vision_check_any_viewer [of "no_constraint\<lparr>vision_filters := [([1, 2], False)]\<rparr>"
        example_fc konrad here example_externals "[]"]
    by (simp add: len h1 h2)
  have v2: "check_vision example_fc [([1], False)] konrad here = Inr False"
    using vision_check_any_viewer [of "no_constraint\<lparr>vision_filters := [([1], False)]\<rparr>"
        example_fc konrad here example_externals "[]"]
    by (simp add: len h1 h2)
  have v3: "check_vision example_fc [([1, 2], True), ([2], True)] konrad here = Inr False"
    using vision_check_any_viewer
      [of "no_constraint\<lparr>vision_filters := [([1, 2], True), ([2], True)]\<rparr>"
        example_fc konrad here example_externals "[]"]
    by (simp add: len h1 h2)
  from built m2 m1 v1 v2 v3 show ?thesis by simp
qed

section \<open>The adjacency check\<close>

lemma adj_count_counts:
  assumes "\<forall>d \<in> set dirs. \<forall>v. units_find (units fc) (get_adjacent_tiles X loc d) = Some v \<longrightarrow>
              (\<exists>r. matches X fc f v (u_location v) = Inr r)"
    and "is_en \<noteq> None \<longrightarrow> 1 \<le> u_side u \<and> u_side u \<le> int (length (teams fc))"
  shows "adj_count X fc f is_en u loc dirs n =
           Inr (n + int (length (filter (adj_qualifies X fc f is_en u loc) dirs)))"
  using assms(1)
proof (induction dirs arbitrary: n)
  case Nil
  show ?case by simp
next
  case (Cons d ds)
  have IH: "\<And>n. adj_count X fc f is_en u loc ds n =
      Inr (n + int (length (filter (adj_qualifies X fc f is_en u loc) ds)))"
    using Cons by simp
  have step: "adj_count X fc f is_en u loc (d # ds) n =
      adj_count X fc f is_en u loc ds (if adj_qualifies X fc f is_en u loc d then n + 1 else n)"
  proof (cases "units_find (units fc) (get_adjacent_tiles X loc d)")
    case None
    then show ?thesis by (simp add: adj_qualifies_def)
  next
    case (Some v)
    with Cons.prems obtain r where r: "matches X fc f v (u_location v) = Inr r" by auto
    then obtain cs where run: "matches_run X fc f v (u_location v) = Inr (r, cs)"
      using matches_Inr_run by blast
    show ?thesis
    proof (cases is_en)
      case None
      with Some r run show ?thesis by (simp add: adj_qualifies_def holds_def)
    next
      case (Some e)
      with assms(2) have "teams_at (teams fc) (u_side u - 1) = Some (teams fc ! nat (u_side u - 1))"
        by (simp add: teams_at_def)
      with \<open>units_find (units fc) (get_adjacent_tiles X loc d) = Some v\<close> Some r run
      show ?thesis by (simp add: adj_qualifies_def holds_def)
    qed
  qed
  show ?case unfolding step by (simp add: IH)
qed

lemma adj_loop_counts:
  assumes "\<forall>fa \<in> set adjs. \<forall>d \<in> set (adj_dirs (snd fa)). \<forall>v.
              units_find (units fc) (get_adjacent_tiles X loc d) = Some v \<longrightarrow>
              (\<exists>r. matches X fc (fst fa) v (u_location v) = Inr r)"
    and "\<forall>fa \<in> set adjs. adj_is_enemy (snd fa) \<noteq> None \<longrightarrow>
              1 \<le> u_side u \<and> u_side u \<le> int (length (teams fc))"
  shows "adj_loop X fc adjs u loc =
      Inr (\<forall>fa \<in> set adjs.
             in_ranges
               (int (length (filter (adj_qualifies X fc (fst fa) (adj_is_enemy (snd fa)) u loc)
                               (adj_dirs (snd fa)))))
               (adj_counts (snd fa)))"
  using assms
proof (induction adjs)
  case Nil
  show ?case by simp
next
  case (Cons fa rest)
  obtain f a where fa: "fa = (f, a)" by (cases fa)
  have "adj_count X fc f (adj_is_enemy a) u loc (adj_dirs a) 0 =
      Inr (0 + int (length (filter (adj_qualifies X fc f (adj_is_enemy a) u loc) (adj_dirs a))))"
    using Cons.prems fa by (intro adj_count_counts) auto
  moreover have "adj_loop X fc rest u loc =
      Inr (\<forall>fa \<in> set rest.
             in_ranges
               (int (length (filter (adj_qualifies X fc (fst fa) (adj_is_enemy (snd fa)) u loc)
                               (adj_dirs (snd fa)))))
               (adj_counts (snd fa)))"
    using Cons by simp
  ultimately show ?case by (auto simp: fa)
qed

text \<open>
  C7, as amended. When the nested filters return an answer on the neighbours and the
  tested unit's side is a side of the world where the enemy flag is given, the adjacency
  check passes exactly when, for each adjacency filter, the number of entries of the
  configured direction list whose neighbour qualifies (\<open>adj_qualifies\<close>: the tile holds
  a unit, the nested filter matches it and, when the enemy flag is given, the flag equals
  the enemy relation of the tested unit's team to the neighbour's side) lies in one of the
  accepted count ranges; a direction listed twice is counted twice, and for distinct
  directions the number is the number of qualifying directions.
  \<open>internal_matches_filter\<close> returns true exactly when this holds together with its
  other checks. With the default range from 1 to 6 and no qualifying neighbour the check
  fails and \<open>internal_matches_filter\<close> is not true. The constructor pushes, for a
  \<open>filter_adjacent\<close> child, the nested filter with the enemy flag of \<open>is_enemy\<close>
  (none when blank), the directions parsed from \<open>adjacent\<close> (all six when blank) and
  the ranges parsed from \<open>count\<close> (1 to 6 when blank).
\<close>

theorem adjacency_check_counts:
  assumes "\<forall>fa \<in> set adjs. \<forall>d \<in> set (adj_dirs (snd fa)). \<forall>v.
              units_find (units fc) (get_adjacent_tiles X loc d) = Some v \<longrightarrow>
              (\<exists>r. matches X fc (fst fa) v (u_location v) = Inr r)"
    and "\<forall>fa \<in> set adjs. adj_is_enemy (snd fa) \<noteq> None \<longrightarrow>
              1 \<le> u_side u \<and> u_side u \<le> int (length (teams fc))"
  shows "adj_loop X fc adjs u loc =
           Inr (\<forall>fa \<in> set adjs.
                  in_ranges
                    (int (length (filter (adj_qualifies X fc (fst fa) (adj_is_enemy (snd fa)) u loc)
                                    (adj_dirs (snd fa)))))
                    (adj_counts (snd fa))) \<and>
         (internal_matches_filter X fc cfg adjs u loc = Inr True) =
           (checks_name_to_variation X fc cfg u loc \<and>
            check_has_variation X cfg u = Inr True \<and>
            checks_ability_to_wml X fc cfg u loc \<and>
            check_vision fc (vision_filters cfg) u loc = Inr True \<and>
            (\<forall>fa \<in> set adjs.
               in_ranges
                 (int (length (filter (adj_qualifies X fc (fst fa) (adj_is_enemy (snd fa)) u loc)
                                 (adj_dirs (snd fa)))))
                 (adj_counts (snd fa))) \<and>
            checks_find_in_to_lua X fc cfg u loc) \<and>
         (\<forall>fa \<in> set adjs.
            adj_counts (snd fa) = default_counts \<and>
            filter (adj_qualifies X fc (fst fa) (adj_is_enemy (snd fa)) u loc) (adj_dirs (snd fa)) = []
            \<longrightarrow> adj_loop X fc adjs u loc = Inr False \<and>
                internal_matches_filter X fc cfg adjs u loc \<noteq> Inr True) \<and>
         (\<forall>fa \<in> set adjs. distinct (adj_dirs (snd fa)) \<longrightarrow>
            length (filter (adj_qualifies X fc (fst fa) (adj_is_enemy (snd fa)) u loc)
                      (adj_dirs (snd fa))) =
            card {d \<in> set (adj_dirs (snd fa)).
                    adj_qualifies X fc (fst fa) (adj_is_enemy (snd fa)) u loc d}) \<and>
         adjacent_entry X f =
           \<lparr>adj_is_enemy = (if vattr f ''is_enemy'' = None then None
                            else Some (to_bool X (vattr f ''is_enemy'') False)),
            adj_dirs = (if vattr f ''adjacent'' = None then default_dirs
                        else parse_directions X (str (vattr f ''adjacent''))),
            adj_counts = (if vattr f ''count'' = None then default_counts
                          else parse_ranges X (str (vattr f ''count'')))\<rparr> \<and>
         adjacent_entry X (Vconfig [] cs) =
           \<lparr>adj_is_enemy = None, adj_dirs = default_dirs, adj_counts = default_counts\<rparr> \<and>
         ctor_loop X fc' flat_tod ((''filter_adjacent'', f) # rest) (cfg', conds', adjs') =
           (case construct X fc' flat_tod f of
              Inl e \<Rightarrow> Inl e
            | Inr g \<Rightarrow> ctor_loop X fc' flat_tod rest (cfg', conds', adjs' @ [(g, adjacent_entry X f)]))"
proof -
  let ?pass = "\<forall>fa \<in> set adjs.
      in_ranges
        (int (length (filter (adj_qualifies X fc (fst fa) (adj_is_enemy (snd fa)) u loc)
                        (adj_dirs (snd fa)))))
        (adj_counts (snd fa))"
  have loop: "adj_loop X fc adjs u loc = Inr ?pass"
    using assms by (rule adj_loop_counts)
  have internal: "(internal_matches_filter X fc cfg adjs u loc = Inr True) =
      (checks_name_to_variation X fc cfg u loc \<and>
       check_has_variation X cfg u = Inr True \<and>
       checks_ability_to_wml X fc cfg u loc \<and>
       check_vision fc (vision_filters cfg) u loc = Inr True \<and>
       ?pass \<and>
       checks_find_in_to_lua X fc cfg u loc)"
    by (simp add: internal_true_iff loop)
  have zero: "\<not> in_ranges 0 default_counts" by (simp add: default_counts_def)
  have fails: "\<forall>fa \<in> set adjs.
      adj_counts (snd fa) = default_counts \<and>
      filter (adj_qualifies X fc (fst fa) (adj_is_enemy (snd fa)) u loc) (adj_dirs (snd fa)) = []
      \<longrightarrow> \<not> ?pass"
    using zero by fastforce
  have part: "\<forall>fa \<in> set adjs.
      adj_counts (snd fa) = default_counts \<and>
      filter (adj_qualifies X fc (fst fa) (adj_is_enemy (snd fa)) u loc) (adj_dirs (snd fa)) = []
      \<longrightarrow> adj_loop X fc adjs u loc = Inr False \<and>
          internal_matches_filter X fc cfg adjs u loc \<noteq> Inr True"
    unfolding internal loop using fails by blast
  have cards: "\<forall>fa \<in> set adjs. distinct (adj_dirs (snd fa)) \<longrightarrow>
      length (filter (adj_qualifies X fc (fst fa) (adj_is_enemy (snd fa)) u loc)
                (adj_dirs (snd fa))) =
      card {d \<in> set (adj_dirs (snd fa)).
              adj_qualifies X fc (fst fa) (adj_is_enemy (snd fa)) u loc d}"
    by (auto simp: distinct_length_filter Int_def conj_commute)
  have entry: "adjacent_entry X f =
      \<lparr>adj_is_enemy = (if vattr f ''is_enemy'' = None then None
                       else Some (to_bool X (vattr f ''is_enemy'') False)),
       adj_dirs = (if vattr f ''adjacent'' = None then default_dirs
                   else parse_directions X (str (vattr f ''adjacent''))),
       adj_counts = (if vattr f ''count'' = None then default_counts
                     else parse_ranges X (str (vattr f ''count'')))\<rparr>"
    by (simp add: adjacent_entry_def blank_def Let_def)
  have dflt: "adjacent_entry X (Vconfig [] cs) =
      \<lparr>adj_is_enemy = None, adj_dirs = default_dirs, adj_counts = default_counts\<rparr>"
    by (simp add: adjacent_entry_def blank_def)
  have pushed: "ctor_loop X fc' flat_tod ((''filter_adjacent'', f) # rest) (cfg', conds', adjs') =
      (case construct X fc' flat_tod f of
         Inl e \<Rightarrow> Inl e
       | Inr g \<Rightarrow> ctor_loop X fc' flat_tod rest (cfg', conds', adjs' @ [(g, adjacent_entry X f)]))"
    by (simp add: string_to_TYPE_def)
  from loop internal part cards entry dflt pushed show ?thesis by blast
qed


theorem adjacency_check_counts_witness:
  "adj_loop example_externals example_fc
     [(Null_unit_filter_impl,
       \<lparr>adj_is_enemy = Some True, adj_dirs = default_dirs, adj_counts = default_counts\<rparr>)]
     konrad here = Inr True \<and>
   adj_loop example_externals example_fc
     [(Null_unit_filter_impl,
       \<lparr>adj_is_enemy = Some True, adj_dirs = [SOUTH], adj_counts = default_counts\<rparr>)]
     konrad here = Inr False \<and>
   adj_loop example_externals example_fc
     [(Null_unit_filter_impl,
       \<lparr>adj_is_enemy = Some False, adj_dirs = default_dirs, adj_counts = default_counts\<rparr>)]
     konrad here = Inr False \<and>
   construct example_externals example_fc False
     (Vconfig [] [(''filter_adjacent'', Vconfig [(''adjacent'', ''n''), (''is_enemy'', ''yes'')] [])]) =
     Inr (Basic_unit_filter_impl no_constraint []
            [(Basic_unit_filter_impl no_constraint [] [],
              \<lparr>adj_is_enemy = Some True, adj_dirs = [NORTH], adj_counts = default_counts\<rparr>)]) \<and>
   matches example_externals example_fc
     (Basic_unit_filter_impl no_constraint []
        [(Basic_unit_filter_impl no_constraint [] [],
          \<lparr>adj_is_enemy = Some True, adj_dirs = [NORTH], adj_counts = default_counts\<rparr>)])
     konrad here = Inr True \<and>
   matches example_externals example_fc
     (Basic_unit_filter_impl no_constraint []
        [(Basic_unit_filter_impl no_constraint [] [],
          \<lparr>adj_is_enemy = Some True, adj_dirs = [SOUTH], adj_counts = default_counts\<rparr>)])
     konrad here = Inr False"
proof -
  let ?count = "\<lambda>adjs. \<forall>fa \<in> set adjs.
      in_ranges
        (int (length (filter (adj_qualifies example_externals example_fc (fst fa)
                                (adj_is_enemy (snd fa)) konrad here)
                        (adj_dirs (snd fa)))))
        (adj_counts (snd fa))"
  let ?a1 = "[(Null_unit_filter_impl,
       \<lparr>adj_is_enemy = Some True, adj_dirs = default_dirs, adj_counts = default_counts\<rparr>)]"
  let ?a2 = "[(Null_unit_filter_impl,
       \<lparr>adj_is_enemy = Some True, adj_dirs = [SOUTH], adj_counts = default_counts\<rparr>)]"
  let ?a3 = "[(Null_unit_filter_impl,
       \<lparr>adj_is_enemy = Some False, adj_dirs = default_dirs, adj_counts = default_counts\<rparr>)]"
  have null: "\<And>X fc v l. matches X fc Null_unit_filter_impl v l = Inr True"
    by (simp add: matches_def)
  have side: "1 \<le> u_side konrad \<and> u_side konrad \<le> int (length (teams example_fc))"
    by (simp add: example_defs)
  have north: "adj_qualifies example_externals example_fc Null_unit_filter_impl (Some True)
      konrad here = (\<lambda>d. d = NORTH)"
    by (rule ext, case_tac d)
      (simp_all add: adj_qualifies_def null holds_def units_find_def example_defs
        example_adjacent_def)
  have none: "adj_qualifies example_externals example_fc Null_unit_filter_impl (Some False)
      konrad here = (\<lambda>d. False)"
    by (rule ext, case_tac d)
      (simp_all add: adj_qualifies_def null holds_def units_find_def example_defs
        example_adjacent_def)
  have e1: "adj_loop example_externals example_fc ?a1 konrad here = Inr (?count ?a1)"
    by (rule adjacency_check_counts [THEN conjunct1]) (auto simp: null side)
  have e2: "adj_loop example_externals example_fc ?a2 konrad here = Inr (?count ?a2)"
    by (rule adjacency_check_counts [THEN conjunct1]) (auto simp: null side)
  have e3: "adj_loop example_externals example_fc ?a3 konrad here = Inr (?count ?a3)"
    by (rule adjacency_check_counts [THEN conjunct1]) (auto simp: null side)
  have v1: "?count ?a1 = True"
    by (simp add: north default_dirs_def default_counts_def)
  have v2: "?count ?a2 = False"
    by (simp add: north default_counts_def)
  have v3: "?count ?a3 = False"
    by (simp add: none default_dirs_def default_counts_def)
  have built: "construct example_externals example_fc False
      (Vconfig [] [(''filter_adjacent'', Vconfig [(''adjacent'', ''n''), (''is_enemy'', ''yes'')] [])]) =
      Inr (Basic_unit_filter_impl no_constraint []
             [(Basic_unit_filter_impl no_constraint [] [],
               \<lparr>adj_is_enemy = Some True, adj_dirs = [NORTH], adj_counts = default_counts\<rparr>)])"
    by (simp add: string_to_TYPE_def init_cfg_def no_constraint_def adjacent_entry_def
        blank_def str_def example_externals_def)
  have m1: "matches example_externals example_fc
      (Basic_unit_filter_impl no_constraint []
         [(Basic_unit_filter_impl no_constraint [] [],
           \<lparr>adj_is_enemy = Some True, adj_dirs = [NORTH], adj_counts = default_counts\<rparr>)])
      konrad here = Inr True"
    by (simp add: matches_def internal_matches_filter.simps example_defs check_defs teams_at_def
        units_find_def example_adjacent_def default_counts_def)
  have m2: "matches example_externals example_fc
      (Basic_unit_filter_impl no_constraint []
         [(Basic_unit_filter_impl no_constraint [] [],
           \<lparr>adj_is_enemy = Some True, adj_dirs = [SOUTH], adj_counts = default_counts\<rparr>)])
      konrad here = Inr False"
    by (simp add: matches_def internal_matches_filter.simps example_defs check_defs teams_at_def
        units_find_def example_adjacent_def default_counts_def)
  show ?thesis unfolding e1 e2 e3 v1 v2 v3 using built m1 m2 by simp
qed

text \<open>
  The claim as stated fails: with the direction \<open>n\<close> listed twice and the count
  \<open>1\<close>, one neighbour location qualifies and 1 is an accepted count, yet the loop
  counts 2 and the filter does not match.
\<close>

theorem adjacency_counts_direction_twice:
  "construct example_externals example_fc False
     (Vconfig [] [(''filter_adjacent'', Vconfig [(''adjacent'', ''n,n''), (''count'', ''1'')] [])]) =
     Inr (Basic_unit_filter_impl no_constraint []
            [(Basic_unit_filter_impl no_constraint [] [],
              \<lparr>adj_is_enemy = None, adj_dirs = [NORTH, NORTH], adj_counts = [(1, 1)]\<rparr>)]) \<and>
   set [NORTH, NORTH] = {NORTH} \<and>
   adj_qualifies example_externals example_fc (Basic_unit_filter_impl no_constraint [] []) None
     konrad here NORTH \<and>
   in_ranges 1 [(1, 1)] \<and>
   adj_loop example_externals example_fc
     [(Basic_unit_filter_impl no_constraint [] [],
       \<lparr>adj_is_enemy = None, adj_dirs = [NORTH, NORTH], adj_counts = [(1, 1)]\<rparr>)]
     konrad here = Inr False \<and>
   matches example_externals example_fc
     (Basic_unit_filter_impl no_constraint []
        [(Basic_unit_filter_impl no_constraint [] [],
          \<lparr>adj_is_enemy = None, adj_dirs = [NORTH, NORTH], adj_counts = [(1, 1)]\<rparr>)])
     konrad here = Inr False"
proof -
  have built: "construct example_externals example_fc False
      (Vconfig [] [(''filter_adjacent'', Vconfig [(''adjacent'', ''n,n''), (''count'', ''1'')] [])]) =
      Inr (Basic_unit_filter_impl no_constraint []
             [(Basic_unit_filter_impl no_constraint [] [],
               \<lparr>adj_is_enemy = None, adj_dirs = [NORTH, NORTH], adj_counts = [(1, 1)]\<rparr>)])"
    by (simp add: string_to_TYPE_def init_cfg_def no_constraint_def adjacent_entry_def
        blank_def str_def example_externals_def)
  have q: "adj_qualifies example_externals example_fc (Basic_unit_filter_impl no_constraint [] [])
      None konrad here NORTH"
    by (simp add: adj_qualifies_def holds_def matches_def internal_matches_filter.simps
        example_defs check_defs units_find_def example_adjacent_def)
  have l: "adj_loop example_externals example_fc
      [(Basic_unit_filter_impl no_constraint [] [],
        \<lparr>adj_is_enemy = None, adj_dirs = [NORTH, NORTH], adj_counts = [(1, 1)]\<rparr>)]
      konrad here = Inr False"
    by (simp add: internal_matches_filter.simps example_defs check_defs units_find_def
        example_adjacent_def)
  have m: "matches example_externals example_fc
      (Basic_unit_filter_impl no_constraint []
         [(Basic_unit_filter_impl no_constraint [] [],
           \<lparr>adj_is_enemy = None, adj_dirs = [NORTH, NORTH], adj_counts = [(1, 1)]\<rparr>)])
      konrad here = Inr False"
    by (simp add: matches_def internal_matches_filter.simps example_defs check_defs
        units_find_def example_adjacent_def)
  from built q l m show ?thesis by simp
qed

section \<open>The lazy list wrapper\<close>

lemma lazy_asks_cached:
  "lazy_asks sp \<lparr>my_str = s, my_list = Some v\<rparr> qs =
     (map (answer_on v) qs, \<lparr>my_str = s, my_list = Some v\<rparr>, 0)"
proof (induction qs)
  case Nil
  show ?case by simp
next
  case (Cons q qs)
  have "lazy_ask sp \<lparr>my_str = s, my_list = Some v\<rparr> q =
      (answer_on v q, \<lparr>my_str = s, my_list = Some v\<rparr>, 0)"
    by (cases q) (simp_all add: lazy_empty_def lazy_find_def lazy_get_def Let_def)
  with Cons show ?case by simp
qed

lemma lazy_asks_fresh:
  "\<exists>l' n. lazy_asks sp \<lparr>my_str = s, my_list = None\<rparr> qs = (map (answer_on (sp s)) qs, l', n) \<and> n \<le> 1"
proof (cases qs)
  case Nil
  then show ?thesis by simp
next
  case (Cons q rest)
  have "lazy_ask sp \<lparr>my_str = s, my_list = None\<rparr> q =
      (answer_on (sp s) q, \<lparr>my_str = s, my_list = Some (sp s)\<rparr>, 1)"
    by (cases q) (simp_all add: lazy_empty_def lazy_find_def lazy_get_def Let_def)
  then show ?thesis by (simp add: Cons lazy_asks_cached)
qed

text \<open>
  C8, as amended. For every splitter and every raw value: the emptiness query is true
  exactly when the parsed list is empty, so always for a blank value; the membership
  query is exact membership in the parsed list; and in every sequence of queries on one
  wrapper each answer is the answer on the parsed list, a function of the raw value, with
  at most one call of the splitter in the whole sequence.
\<close>

theorem lazy_string_list_queries:
  "fst (lazy_empty sp (lazy_string_list_of attr)) = (parsed sp attr = []) \<and>
   (blank attr \<longrightarrow> fst (lazy_empty sp (lazy_string_list_of attr))) \<and>
   fst (lazy_find sp (lazy_string_list_of attr) s) = (s \<in> set (parsed sp attr)) \<and>
   (\<exists>l' n. lazy_asks sp (lazy_string_list_of attr) qs =
              (map (answer_on (parsed sp attr)) qs, l', n) \<and> n \<le> 1)"
proof -
  have a: "fst (lazy_empty sp (lazy_string_list_of attr)) = (parsed sp attr = [])"
    by (simp add: lazy_empty_def lazy_get_def lazy_string_list_of_def parsed_def Let_def)
  have b: "fst (lazy_find sp (lazy_string_list_of attr) s) = (s \<in> set (parsed sp attr))"
    by (simp add: lazy_find_def lazy_get_def lazy_string_list_of_def parsed_def Let_def)
  have c: "\<exists>l' n. lazy_asks sp (lazy_string_list_of attr) qs =
              (map (answer_on (parsed sp attr)) qs, l', n) \<and> n \<le> 1"
  proof (cases "blank attr")
    case True
    then show ?thesis by (simp add: lazy_string_list_of_def parsed_def lazy_asks_cached)
  next
    case False
    then show ?thesis
      using lazy_asks_fresh [of sp "str attr" qs]
      by (simp add: lazy_string_list_of_def parsed_def)
  qed
  from a b c show ?thesis by (simp add: parsed_def)
qed

theorem lazy_string_list_queries_witness:
  "fst (lazy_empty comma_split (lazy_string_list_of (Some ''Konrad, Delfador''))) = False \<and>
   fst (lazy_find comma_split (lazy_string_list_of (Some ''Konrad, Delfador'')) ''Delfador'') = True \<and>
   fst (lazy_find comma_split (lazy_string_list_of (Some ''Konrad, Delfador'')) ''Delf'') = False \<and>
   fst (lazy_empty comma_split (lazy_string_list_of None)) = True \<and>
   (\<exists>l' n. lazy_asks comma_split (lazy_string_list_of (Some ''Konrad, Delfador''))
              [Ask_empty, Ask_find ''Konrad'', Ask_get] =
              ([Answer_bool False, Answer_bool True, Answer_list [''Konrad'', ''Delfador'']], l', n) \<and>
            n \<le> 1)"
proof -
  have p: "parsed comma_split (Some ''Konrad, Delfador'') = [''Konrad'', ''Delfador'']"
    by (simp add: parsed_def blank_def str_def comma_split_def strip_def)
  have q: "parsed comma_split None = []"
    by (simp add: parsed_def blank_def)
  from lazy_string_list_queries [of comma_split "Some ''Konrad, Delfador''" "''Delfador''"
      "[Ask_empty, Ask_find ''Konrad'', Ask_get]"]
    lazy_string_list_queries [of comma_split "Some ''Konrad, Delfador''" "''Delf''" "[]"]
    lazy_string_list_queries [of comma_split None "[]" "[]"]
  show ?thesis by (simp add: p q)
qed

text \<open>
  The claim as stated fails: a value that is present and splits into no element (a lone
  comma, or the empty string) makes the emptiness query true.
\<close>

theorem lazy_empty_on_present_value:
  "\<not> blank (Some '','') \<and> fst (lazy_empty comma_split (lazy_string_list_of (Some '',''))) \<and>
   \<not> blank (Some []) \<and> fst (lazy_empty comma_split (lazy_string_list_of (Some [])))"
  by (simp add: blank_def str_def lazy_empty_def lazy_get_def lazy_string_list_of_def
      comma_split_def strip_def Let_def)

section \<open>The map queries of the two implementations\<close>

text \<open>
  On the basic implementation, when \<open>matches\<close> returns an answer on the units of the
  world, \<open>first_match_on_map\<close> is the first unit in iteration order that matches (none
  when no unit matches) and \<open>all_matches_on_map\<close> is the list of the units that match.
  On the null implementation \<open>first_match_on_map\<close> is the first unit of a world that
  has one.
\<close>

lemma first_match_loop_finds:
  assumes "\<forall>u \<in> set us. \<exists>r. matches X fc f u (u_location u) = Inr r"
  shows "first_match_loop X fc f us =
           Inr (find (\<lambda>u. holds (matches X fc f u (u_location u))) us)"
  using assms
proof (induction us)
  case Nil
  show ?case by simp
next
  case (Cons u us)
  then obtain r where "matches X fc f u (u_location u) = Inr r" by auto
  with Cons show ?case by (simp add: holds_def)
qed

lemma all_matches_loop_filters:
  assumes "\<forall>u \<in> set us. \<exists>r. matches X fc f u (u_location u) = Inr r"
  shows "all_matches_loop X fc f us ret =
           Inr (ret @ filter (\<lambda>u. holds (matches X fc f u (u_location u))) us)"
  using assms
proof (induction us arbitrary: ret)
  case Nil
  show ?case by simp
next
  case (Cons u us)
  then obtain r where "matches X fc f u (u_location u) = Inr r" by auto
  with Cons show ?case by (simp add: holds_def)
qed

lemma basic_filter_map_queries:
  assumes "\<forall>u \<in> set (units fc). \<exists>r.
      matches X fc (Basic_unit_filter_impl cfg conds adjs) u (u_location u) = Inr r"
  shows "first_match_on_map X fc (Basic_unit_filter_impl cfg conds adjs) =
           Inr (find (\<lambda>u. holds (matches X fc (Basic_unit_filter_impl cfg conds adjs) u (u_location u)))
                  (units fc)) \<and>
         all_matches_on_map X fc (Basic_unit_filter_impl cfg conds adjs) =
           Inr (filter (\<lambda>u. holds (matches X fc (Basic_unit_filter_impl cfg conds adjs) u (u_location u)))
                  (units fc))"
  using first_match_loop_finds [OF assms] all_matches_loop_filters [OF assms, of "[]"]
  by simp

lemma null_filter_first_match_nonempty:
  "units fc = u # us \<Longrightarrow> first_match_on_map X fc Null_unit_filter_impl = Inr (Some u)"
  by simp

text \<open>
  C9. The null implementation does not return the no-match value on a world without
  units: it takes the unit of \<open>begin()\<close>, which is the end of the empty unit map. The
  basic implementation returns the no-match value there.
\<close>

theorem null_first_match_on_empty_map:
  "units example_fc \<noteq> [] \<and>
   first_match_on_map example_externals (example_fc\<lparr>units := []\<rparr>) Null_unit_filter_impl =
     Inl Invalid_iterator \<and>
   first_match_on_map example_externals (example_fc\<lparr>units := []\<rparr>)
     (Basic_unit_filter_impl no_constraint [] []) = Inr None"
  by (simp add: example_fc_def)

end
